theory Spec2Isabelle
  imports Complex_Main "HOL-Library.Multiset" "HOL-Library.Product_Lexorder" "HOL-Library.Sublist"
begin

section \<open>TV split optimizer: the allocation engine of \<^verbatim>\<open>calculationService.ts\<close>\<close>

text \<open>
  The theory embeds the calculation part of \<^verbatim>\<open>src/services/calculationService.ts\<close>:
  the relative cost index, the selection policies, the share optimizer
  (\<^verbatim>\<open>optimizeSplit\<close>) and the three split generators.

  Conventions of the embedding.
  \<^item> A JavaScript number is an exact \<open>real\<close>; rounding of IEEE doubles is outside the
    model, so an equation proved here holds in the program up to its rounding error.
    The one exception is the cutoff count \<^verbatim>\<open>Math.ceil(n * (cutoff / 100))\<close>, where rounding
    decides how many records are cut: its quotient and product are rounded as IEEE 754
    double precision rounds them (to nearest, ties to even).
  \<^item> A field of type \<^verbatim>\<open>number | null\<close> is a \<open>real option\<close>. \<open>None\<close> stands for \<^verbatim>\<open>null\<close>
    and for \<^verbatim>\<open>NaN\<close> (a failed \<^verbatim>\<open>parseFloat\<close>): both are falsy, both fail every comparison,
    and \<^verbatim>\<open>JSON.stringify\<close> turns \<^verbatim>\<open>NaN\<close> into \<^verbatim>\<open>null\<close> before any optimizer runs.
  \<^item> The brief (\<^verbatim>\<open>brief.regionBriefs\<close>) is an association list in key order:
    \<^verbatim>\<open>Object.keys\<close> is \<open>map fst\<close>, a property read is \<open>map_of\<close>. Its numeric fields are
    finite numbers or \<^verbatim>\<open>null\<close> (the brief form stores \<^verbatim>\<open>null\<close> for an empty field).
  \<^item> The comment texts are a datatype, one constructor per message, carrying the number
    the message prints.
\<close>

subsection \<open>Data model (\<^verbatim>\<open>ChannelData\<close>, \<^verbatim>\<open>RegionBrief\<close>, \<^verbatim>\<open>BriefData\<close>)\<close>

datatype Comment =
    LowShare real             \<comment> \<open>the share fell below the floor m (in percent)\<close>
  | OrbitalCorrected real     \<comment> \<open>the orbital share was cut to the cap c (in percent)\<close>
  | ExpensiveIndex            \<comment> \<open>cut off as too expensive by the cost index\<close>
  | NoTcppData                \<comment> \<open>no data to compute the cost per target point\<close>
  | NoDataOrZeroCpp           \<comment> \<open>no data or a zero price (Natural selection)\<close>
  | NotChosenByUser           \<comment> \<open>not in the user's allow-list\<close>
  | ManualShare               \<comment> \<open>share entered by hand\<close>
  | ZeroShare                 \<comment> \<open>entered share is 0\<close>
  | NotChosen                 \<comment> \<open>absent from the entered shares\<close>

record ChannelData =
  region :: string
  channel :: string
  type :: string
  ta :: string
  tvrTa :: "real option"
  aff :: "real option"
  salesTvr :: "real option"
  cpp :: "real option"
  tcpp :: "real option"
  indexTcpp :: "real option"
  selected :: bool
  weightedRating :: "real option"
  share :: "real option"
  trp :: "real option"
  comment :: "Comment option"
  sortOrder :: nat

record RegionBrief =
  targetAudience :: string
  minChannelShare :: "real option"
  maxOrbitalShare :: "real option"
  expensiveChannelCutoff :: "real option"

type_synonym BriefData = "(string \<times> RegionBrief) list"

text \<open>\<^verbatim>\<open>Object.keys(brief.regionBriefs)\<close> and \<^verbatim>\<open>brief.regionBriefs[r]\<close>.\<close>

definition regions :: "BriefData \<Rightarrow> string list" where
  "regions brief = map fst brief"

definition regionBrief :: "BriefData \<Rightarrow> string \<Rightarrow> RegionBrief option" where
  "regionBrief brief r = map_of brief r"

text \<open>The weighting strategies are passed as strings; any other string takes the
  \<^verbatim>\<open>default\<close> branch of the switch.\<close>

datatype Logic = TCPP | Affinity | Efficiency | Natural | Custom | OtherLogic

record Weights =
  w_aff :: real
  w_tcpp :: real
  w_eff :: real

subsection \<open>JavaScript idioms\<close>

text \<open>\<^verbatim>\<open>x || 0\<close> on a \<^verbatim>\<open>number | null\<close>.\<close>

definition or0 :: "real option \<Rightarrow> real" where
  "or0 x = (case x of None \<Rightarrow> 0 | Some v \<Rightarrow> v)"

text \<open>\<^verbatim>\<open>x || 1\<close>: null and 0 are both falsy.\<close>

definition or1 :: "real option \<Rightarrow> real" where
  "or1 x = (case x of None \<Rightarrow> 1 | Some v \<Rightarrow> if v = 0 then 1 else v)"

text \<open>\<^verbatim>\<open>x && x > 0\<close> (also \<^verbatim>\<open>x !== null && x > 0\<close>).\<close>

definition positive :: "real option \<Rightarrow> bool" where
  "positive x = (case x of None \<Rightarrow> False | Some v \<Rightarrow> 0 < v)"

text \<open>\<^verbatim>\<open>s.includes(sub)\<close>.\<close>

fun includes_str :: "string \<Rightarrow> string \<Rightarrow> bool" where
  "includes_str [] sub = (sub = [])"
| "includes_str (c # cs) sub = (prefix sub (c # cs) \<or> includes_str cs sub)"

text \<open>The cutoff count \<^verbatim>\<open>Math.ceil(n * (cutoff / 100))\<close> selects records, so its arithmetic
  is modelled as the program performs it, in IEEE 754 double precision: a value of type
  \<open>number\<close> is a finite double (the real it denotes), an infinity or \<^verbatim>\<open>NaN\<close>.\<close>

datatype number = Finite real | PlusInfinity | MinusInfinity | NaN

definition pow2 :: "int \<Rightarrow> real" where
  "pow2 e = (if 0 \<le> e then 2 ^ nat e else 1 / 2 ^ nat (- e))"

text \<open>The binary exponent of a positive real, kept between the least and the greatest
  exponent of a double: \<open>exponent x = e\<close> with \<open>2 ^ e \<le> x < 2 ^ (e + 1)\<close>, and \<open>- 1022\<close> for
  every smaller \<open>x\<close> (the subnormal range).\<close>

function exponent_up :: "real \<Rightarrow> int \<Rightarrow> int" where
  "exponent_up x e = (if 2 \<le> x \<and> e < 1024 then exponent_up (x / 2) (e + 1) else e)"
  by pat_completeness auto
termination
  by (relation "measure (\<lambda>(x, e). nat (1024 - e))") auto

function exponent_down :: "real \<Rightarrow> int \<Rightarrow> int" where
  "exponent_down x e = (if x < 1 \<and> - 1022 < e then exponent_down (x * 2) (e - 1) else e)"
  by pat_completeness auto
termination
  by (relation "measure (\<lambda>(x, e). nat (e + 1022))") auto

declare exponent_up.simps [simp del] exponent_down.simps [simp del]

definition exponent :: "real \<Rightarrow> int" where
  "exponent x = (if 1 \<le> x then exponent_up x 0 else exponent_down x 0)"

text \<open>Rounding to the nearest integer, ties to the even one; the nearest multiple of the
  unit in the last place of a significand of 53 bits; and the double an exact result is
  rounded to. A magnitude that rounds to \<open>2 ^ 1024\<close> or more overflows to an infinity.\<close>

definition round_half_even :: "real \<Rightarrow> int" where
  "round_half_even y =
     (let f = \<lfloor>y\<rfloor>; r = y - real_of_int f in
      if r < 1 / 2 then f else if 1 / 2 < r then f + 1 else if even f then f else f + 1)"

definition nearest :: "real \<Rightarrow> real" where
  "nearest x =
     (if x = 0 then 0
      else (let q = pow2 (exponent x - 52) in real_of_int (round_half_even (x / q)) * q))"

definition round_double :: "real \<Rightarrow> number" where
  "round_double x =
     (let y = nearest \<bar>x\<bar> in
      if 2 ^ 1024 \<le> y then (if 0 < x then PlusInfinity else MinusInfinity)
      else Finite (if 0 \<le> x then y else - y))"

text \<open>\<^verbatim>\<open>a / b\<close> for finite \<open>a\<close> and a finite divisor other than 0, \<^verbatim>\<open>a * y\<close> for finite \<open>a\<close>,
  and \<^verbatim>\<open>Math.ceil\<close>, which is exact.\<close>

definition double_divide :: "real \<Rightarrow> real \<Rightarrow> number" where
  "double_divide a b = round_double (a / b)"

fun double_times :: "real \<Rightarrow> number \<Rightarrow> number" where
  "double_times a (Finite b) = round_double (a * b)"
| "double_times a PlusInfinity = (if 0 < a then PlusInfinity else if a < 0 then MinusInfinity else NaN)"
| "double_times a MinusInfinity = (if 0 < a then MinusInfinity else if a < 0 then PlusInfinity else NaN)"
| "double_times a NaN = NaN"

fun Math_ceil :: "number \<Rightarrow> number" where
  "Math_ceil (Finite x) = Finite (real_of_int \<lceil>x\<rceil>)"
| "Math_ceil PlusInfinity = PlusInfinity"
| "Math_ceil MinusInfinity = MinusInfinity"
| "Math_ceil NaN = NaN"

text \<open>\<^verbatim>\<open>xs.slice(0, end)\<close>: the end is truncated to an integer (\<^verbatim>\<open>NaN\<close> to 0), a negative
  end counts from the end of the array, and the result stays within the array.\<close>

fun slice0 :: "'a list \<Rightarrow> number \<Rightarrow> 'a list" where
  "slice0 xs (Finite k) =
     (let i = (if k < 0 then \<lceil>k\<rceil> else \<lfloor>k\<rfloor>) in
      if i < 0 then take (nat (int (length xs) + i)) xs else take (nat i) xs)"
| "slice0 xs PlusInfinity = xs"
| "slice0 xs MinusInfinity = []"
| "slice0 xs NaN = []"

text \<open>\<^verbatim>\<open>Math.max(...xs)\<close> on a non-empty list.\<close>

fun list_max :: "real list \<Rightarrow> real" where
  "list_max [] = 0"
| "list_max (x # xs) = fold max xs x"

text \<open>The sum \<^verbatim>\<open>xs.reduce((sum, d) => sum + (f(d) || 0), 0)\<close>.\<close>

definition sum_over :: "('a \<Rightarrow> real) \<Rightarrow> 'a list \<Rightarrow> real" where
  "sum_over f xs = sum_list (map f xs)"

subsection \<open>The share optimizer (\<^verbatim>\<open>optimizeSplit\<close>, lines 353-468)\<close>

definition share0 :: "ChannelData \<Rightarrow> real" where
  "share0 d = or0 (share d)"

text \<open>\<^verbatim>\<open>d.region === region && d.selected\<close>, the filter of line 370.\<close>

definition selected_in :: "string \<Rightarrow> ChannelData \<Rightarrow> bool" where
  "selected_in r d = (region d = r \<and> selected d)"

text \<open>The three component ratings (lines 379-381 and 400-402).\<close>

definition rating_aff :: "ChannelData \<Rightarrow> real" where
  "rating_aff d = or0 (tvrTa d) * or1 (aff d)"

definition rating_tcpp :: "real \<Rightarrow> ChannelData \<Rightarrow> real" where
  "rating_tcpp avgTcpp d =
     (case tcpp d of
        None \<Rightarrow> 0
      | Some t \<Rightarrow> if 0 < avgTcpp \<and> 0 < t then or0 (tvrTa d) / (t / avgTcpp) else 0)"

definition rating_eff :: "ChannelData \<Rightarrow> real" where
  "rating_eff d =
     (case cpp d of
        None \<Rightarrow> 0
      | Some c \<Rightarrow> if 0 < c then or0 (tvrTa d) / c else 0)"

text \<open>The switch of lines 398-404.\<close>

fun weighted_rating :: "Logic \<Rightarrow> real \<Rightarrow> ChannelData \<Rightarrow> real option" where
  "weighted_rating Natural avgTcpp d = tvrTa d"
| "weighted_rating Affinity avgTcpp d = Some (rating_aff d)"
| "weighted_rating Efficiency avgTcpp d = Some (rating_eff d)"
| "weighted_rating TCPP avgTcpp d = Some (rating_tcpp avgTcpp d)"
| "weighted_rating Custom avgTcpp d = Some (or0 (tvrTa d))"
| "weighted_rating OtherLogic avgTcpp d = Some (or0 (tvrTa d))"

text \<open>The custom blend (lines 377-394): \<open>wr\<close> holds one entry
  \<open>(ch, aff, tcpp, eff)\<close> per selected record, and \<^verbatim>\<open>wr.find\<close> takes the first entry with
  the record's channel name.\<close>

type_synonym wr_entry = "string \<times> real \<times> real \<times> real"

definition wr_of :: "real \<Rightarrow> ChannelData \<Rightarrow> wr_entry" where
  "wr_of avgTcpp d = (channel d, rating_aff d, rating_tcpp avgTcpp d, rating_eff d)"

definition normalized :: "real \<Rightarrow> real \<Rightarrow> real" where
  "normalized v tot = (if 0 < tot then v / tot else 0)"

definition custom_rating :: "Weights \<Rightarrow> wr_entry list \<Rightarrow> ChannelData \<Rightarrow> real option" where
  "custom_rating w wr d =
     (case find (\<lambda>e. fst e = channel d) wr of
        None \<Rightarrow> weightedRating d
      | Some (ch, a, t, e) \<Rightarrow>
          Some ((w_aff w / 100) * normalized a (sum_over (\<lambda>(ch, a, t, e). a) wr)
              + (w_tcpp w / 100) * normalized t (sum_over (\<lambda>(ch, a, t, e). t) wr)
              + (w_eff w / 100) * normalized e (sum_over (\<lambda>(ch, a, t, e). e) wr)))"

text \<open>The rating a selected record of the region receives in one pass (lines 373-406).\<close>

definition avg_tcpp :: "ChannelData list \<Rightarrow> real" where
  "avg_tcpp sel = sum_over (\<lambda>d. or0 (tcpp d)) sel / real (length sel)"

definition assign_rating :: "Logic \<Rightarrow> Weights option \<Rightarrow> ChannelData list \<Rightarrow> ChannelData \<Rightarrow> real option" where
  "assign_rating logic weights sel d =
     (case (logic, weights) of
        (Custom, Some w) \<Rightarrow> custom_rating w (map (wr_of (avg_tcpp sel)) sel) d
      | _ \<Rightarrow> weighted_rating logic (avg_tcpp sel) d)"

definition set_ratings :: "Logic \<Rightarrow> Weights option \<Rightarrow> string \<Rightarrow> ChannelData list \<Rightarrow> ChannelData list" where
  "set_ratings logic weights r data =
     map (\<lambda>d. if selected_in r d
               then d\<lparr>weightedRating := assign_rating logic weights (filter (selected_in r) data) d\<rparr>
               else d) data"

text \<open>\<^verbatim>\<open>totalWeightedRating\<close> (line 408).\<close>

definition totalWeightedRating :: "string \<Rightarrow> ChannelData list \<Rightarrow> real" where
  "totalWeightedRating r data = sum_over (\<lambda>d. or0 (weightedRating d)) (filter (selected_in r) data)"

text \<open>The normalization of lines 409-414, guarded by \<^verbatim>\<open>totalWeightedRating > 0\<close>.\<close>

definition set_shares :: "string \<Rightarrow> ChannelData list \<Rightarrow> ChannelData list" where
  "set_shares r data =
     (let tw = totalWeightedRating r data in
      if 0 < tw
      then map (\<lambda>d. if selected_in r d then d\<lparr>share := Some (or0 (weightedRating d) / tw)\<rparr>
                     else if region d = r then d\<lparr>share := Some 0\<rparr>
                     else d) data
      else data)"

text \<open>The body of the loop over the regions (lines 369-415) for one region.\<close>

definition region_step :: "Logic \<Rightarrow> Weights option \<Rightarrow> string \<Rightarrow> ChannelData list \<Rightarrow> ChannelData list" where
  "region_step logic weights r data =
     (if filter (selected_in r) data = [] then data
      else set_shares r (set_ratings logic weights r data))"

text \<open>The constraint pass (lines 417-429).\<close>

definition minShare :: "RegionBrief \<Rightarrow> real" where
  "minShare rb = (case minChannelShare rb of None \<Rightarrow> 2 | Some m \<Rightarrow> m) / 100"

definition below_floor :: "BriefData \<Rightarrow> ChannelData \<Rightarrow> bool" where
  "below_floor brief d =
     (case regionBrief brief (region d) of
        None \<Rightarrow> False
      | Some rb \<Rightarrow> selected d \<and> (case share d of None \<Rightarrow> False | Some s \<Rightarrow> s < minShare rb))"

definition deselect_low :: "BriefData \<Rightarrow> ChannelData \<Rightarrow> ChannelData" where
  "deselect_low brief d =
     (case regionBrief brief (region d) of
        None \<Rightarrow> d
      | Some rb \<Rightarrow>
          if below_floor brief d
          then d\<lparr>selected := False, comment := Some (LowShare (minShare rb * 100))\<rparr>
          else d)"

text \<open>One pass of the \<^verbatim>\<open>do ... while\<close> body after the iteration counter
  (lines 369-429): the data it leaves, and the flag \<^verbatim>\<open>changesMade\<close> it computes.\<close>

definition shares_pass :: "BriefData \<Rightarrow> Logic \<Rightarrow> Weights option \<Rightarrow> ChannelData list \<Rightarrow> ChannelData list" where
  "shares_pass brief logic weights data = fold (region_step logic weights) (regions brief) data"

definition pass_data :: "BriefData \<Rightarrow> Logic \<Rightarrow> bool \<Rightarrow> Weights option \<Rightarrow> ChannelData list
    \<Rightarrow> ChannelData list" where
  "pass_data brief logic applyLimits weights data =
     (if applyLimits then map (deselect_low brief) (shares_pass brief logic weights data)
      else shares_pass brief logic weights data)"

definition changesMade :: "BriefData \<Rightarrow> Logic \<Rightarrow> bool \<Rightarrow> Weights option \<Rightarrow> ChannelData list
    \<Rightarrow> bool" where
  "changesMade brief logic applyLimits weights data =
     (applyLimits \<and> list_ex (below_floor brief) (shares_pass brief logic weights data))"

text \<open>The loop of lines 362-430. The state is the data and \<^verbatim>\<open>iterationCount\<close>; the
  result carries the final counter, which is 21 exactly when the loop left through
  \<^verbatim>\<open>break\<close>.\<close>

function optimize_loop :: "BriefData \<Rightarrow> Logic \<Rightarrow> bool \<Rightarrow> Weights option \<Rightarrow> nat
    \<Rightarrow> ChannelData list \<Rightarrow> ChannelData list \<times> nat" where
  "optimize_loop brief logic applyLimits weights iterationCount data =
     (if iterationCount + 1 > 20 then (data, iterationCount + 1)
      else if changesMade brief logic applyLimits weights data
      then optimize_loop brief logic applyLimits weights (iterationCount + 1)
             (pass_data brief logic applyLimits weights data)
      else (pass_data brief logic applyLimits weights data, iterationCount + 1))"
  by pat_completeness auto
termination
  by (relation "measure (\<lambda>(brief, logic, applyLimits, weights, iterationCount, data). 21 - iterationCount)")
     auto

declare optimize_loop.simps [simp del]

text \<open>The orbital cap for one region (lines 434-455).
  The quotient \<^verbatim>\<open>maxShare / totalOrbitalShare\<close> has a zero divisor only when the cap is
  negative; the program then produces non-finite shares, which the model does not
  represent. Statements that pass through this step assume a cap of at least 0.\<close>

definition is_orbital :: "ChannelData \<Rightarrow> bool" where
  "is_orbital d = includes_str (channel d) '' - 0''"

definition orbital_in :: "string \<Rightarrow> ChannelData \<Rightarrow> bool" where
  "orbital_in r d = (region d = r \<and> selected d \<and> is_orbital d)"

definition network_in :: "string \<Rightarrow> ChannelData \<Rightarrow> bool" where
  "network_in r d = (region d = r \<and> selected d \<and> \<not> is_orbital d)"

definition totalOrbitalShare :: "string \<Rightarrow> ChannelData list \<Rightarrow> real" where
  "totalOrbitalShare r data = sum_over share0 (filter (orbital_in r) data)"

definition totalNetworkShare :: "string \<Rightarrow> ChannelData list \<Rightarrow> real" where
  "totalNetworkShare r data = sum_over share0 (filter (network_in r) data)"

definition scale_orbital :: "string \<Rightarrow> real \<Rightarrow> real \<Rightarrow> ChannelData list \<Rightarrow> ChannelData list" where
  "scale_orbital r cap reductionFactor data =
     map (\<lambda>d. if orbital_in r d
               then d\<lparr>share := Some (share0 d * reductionFactor),
                      comment := Some (OrbitalCorrected cap)\<rparr>
               else d) data"

definition redistribute :: "string \<Rightarrow> real \<Rightarrow> ChannelData list \<Rightarrow> ChannelData list" where
  "redistribute r shareToRedistribute data =
     (let tn = totalNetworkShare r data in
      if 0 < tn
      then map (\<lambda>d. if network_in r d
                     then d\<lparr>share := Some (share0 d + (share0 d / tn) * shareToRedistribute)\<rparr>
                     else d) data
      else data)"

definition orbital_step :: "BriefData \<Rightarrow> string \<Rightarrow> ChannelData list \<Rightarrow> ChannelData list" where
  "orbital_step brief r data =
     (case regionBrief brief r of
        None \<Rightarrow> data
      | Some rb \<Rightarrow>
          (case maxOrbitalShare rb of
             None \<Rightarrow> data
           | Some cap \<Rightarrow>
               (let tot = totalOrbitalShare r data; maxShare = cap / 100 in
                if maxShare < tot
                then redistribute r (tot - maxShare) (scale_orbital r cap (maxShare / tot) data)
                else data)))"

definition orbital_pass :: "BriefData \<Rightarrow> bool \<Rightarrow> ChannelData list \<Rightarrow> ChannelData list" where
  "orbital_pass brief applyLimits data =
     (if applyLimits then fold (orbital_step brief) (regions brief) data else data)"

text \<open>Finalization (lines 459-465) and the final sort (line 467). The comparator
  \<^verbatim>\<open>(a.sortOrder - b.sortOrder) || ((b.share || 0) - (a.share || 0))\<close> orders by
  \<open>sortOrder\<close>, then by descending share; \<^verbatim>\<open>Array.prototype.sort\<close> is stable, as
  \<open>sort_key\<close> is.\<close>

definition finalize :: "ChannelData \<Rightarrow> ChannelData" where
  "finalize d =
     (if selected d then d\<lparr>trp := Some (share0 d * 1000)\<rparr>
      else d\<lparr>share := Some 0, trp := Some 0\<rparr>)"

definition rank :: "ChannelData \<Rightarrow> nat \<times> real" where
  "rank d = (sortOrder d, - share0 d)"

definition sort_records :: "ChannelData list \<Rightarrow> ChannelData list" where
  "sort_records data = sort_key rank data"

text \<open>Everything \<^verbatim>\<open>optimizeSplit\<close> does to the records before the sort; the records keep
  their positions.\<close>

definition loop_result :: "BriefData \<Rightarrow> Logic \<Rightarrow> bool \<Rightarrow> Weights option \<Rightarrow> ChannelData list
    \<Rightarrow> ChannelData list" where
  "loop_result brief logic applyLimits weights data =
     fst (optimize_loop brief logic applyLimits weights 0 data)"

definition optimize_records :: "ChannelData list \<Rightarrow> BriefData \<Rightarrow> Logic \<Rightarrow> bool \<Rightarrow> Weights option
    \<Rightarrow> ChannelData list" where
  "optimize_records data brief logic applyLimits weights =
     map finalize (orbital_pass brief applyLimits (loop_result brief logic applyLimits weights data))"

definition optimizeSplit :: "ChannelData list \<Rightarrow> BriefData \<Rightarrow> Logic \<Rightarrow> bool \<Rightarrow> Weights option
    \<Rightarrow> ChannelData list" where
  "optimizeSplit data brief logic applyLimits weights =
     sort_records (optimize_records data brief logic applyLimits weights)"

subsection \<open>Selection policies and split generators (lines 473-584)\<close>

text \<open>The cutoff for one region (lines 484-505). The records of the region that have a
  cost index are sorted by descending index (a stable sort), the first
  \<^verbatim>\<open>Math.ceil(n * (cutoff / 100))\<close> of them give the set of excluded channel \<^emph>\<open>names\<close>, and
  every record of the region is then selected or excluded by its name.\<close>

definition has_index_in :: "string \<Rightarrow> ChannelData \<Rightarrow> bool" where
  "has_index_in r d = (region d = r \<and> indexTcpp d \<noteq> None)"

definition cutoffValue :: "BriefData \<Rightarrow> string \<Rightarrow> real" where
  "cutoffValue brief r =
     (case regionBrief brief r of
        None \<Rightarrow> 20
      | Some rb \<Rightarrow> (case expensiveChannelCutoff rb of None \<Rightarrow> 20 | Some c \<Rightarrow> c))"

definition ranked :: "string \<Rightarrow> ChannelData list \<Rightarrow> ChannelData list" where
  "ranked r data = sort_key (\<lambda>d. - or0 (indexTcpp d)) (filter (has_index_in r) data)"

definition channelsToCut :: "BriefData \<Rightarrow> string \<Rightarrow> ChannelData list \<Rightarrow> number" where
  "channelsToCut brief r data =
     Math_ceil (double_times (real (length (filter (has_index_in r) data)))
                  (double_divide (cutoffValue brief r) 100))"

definition channelsToExclude :: "BriefData \<Rightarrow> string \<Rightarrow> ChannelData list \<Rightarrow> string list" where
  "channelsToExclude brief r data = map channel (slice0 (ranked r data) (channelsToCut brief r data))"

definition cutoff_record :: "string \<Rightarrow> string list \<Rightarrow> ChannelData \<Rightarrow> ChannelData" where
  "cutoff_record r excluded d =
     (if region d = r
      then (if indexTcpp d \<noteq> None
            then (if channel d \<in> set excluded
                  then d\<lparr>selected := False, comment := Some ExpensiveIndex\<rparr>
                  else d\<lparr>selected := True\<rparr>)
            else d\<lparr>selected := False, comment := Some NoTcppData\<rparr>)
      else d)"

definition cutoff_step :: "BriefData \<Rightarrow> string \<Rightarrow> ChannelData list \<Rightarrow> ChannelData list" where
  "cutoff_step brief r data =
     (if filter (has_index_in r) data = [] then data
      else map (cutoff_record r (channelsToExclude brief r data)) data)"

text \<open>What the step of region \<open>r\<close> does to one record of the list \<open>data\<close>.\<close>

definition cutoff_effect :: "BriefData \<Rightarrow> ChannelData list \<Rightarrow> string \<Rightarrow> ChannelData \<Rightarrow> ChannelData" where
  "cutoff_effect brief data r d =
     (if filter (has_index_in r) data = [] then d
      else cutoff_record r (channelsToExclude brief r data) d)"

text \<open>The Natural selection (lines 508-516).\<close>

definition natural_select :: "ChannelData \<Rightarrow> ChannelData" where
  "natural_select d =
     (if positive (tvrTa d) \<and> positive (cpp d) then d\<lparr>selected := True\<rparr>
      else d\<lparr>selected := False, comment := Some NoDataOrZeroCpp\<rparr>)"

text \<open>The initial selection of \<^verbatim>\<open>generateSingleSplit\<close>, and the function itself. It works
  on the list it is given; the store model below makes the sharing explicit.\<close>

definition initial_selection :: "ChannelData list \<Rightarrow> BriefData \<Rightarrow> Logic \<Rightarrow> ChannelData list" where
  "initial_selection data brief logic =
     (if logic \<noteq> Natural then fold (cutoff_step brief) (regions brief) data
      else map natural_select data)"

definition generateSingleSplit :: "ChannelData list \<Rightarrow> BriefData \<Rightarrow> Logic \<Rightarrow> bool \<Rightarrow> ChannelData list" where
  "generateSingleSplit data brief logic applyLimits =
     optimizeSplit (initial_selection data brief logic) brief logic applyLimits None"

text \<open>The allow-list selection (lines 536-544) and \<^verbatim>\<open>generateConstructorSplit\<close>.\<close>

definition constructor_select :: "string list \<Rightarrow> ChannelData \<Rightarrow> ChannelData" where
  "constructor_select selectedChannelNames d =
     (if positive (tcpp d)
      then (if channel d \<in> set selectedChannelNames then d\<lparr>selected := True\<rparr>
            else d\<lparr>selected := False, comment := Some NotChosenByUser\<rparr>)
      else d\<lparr>selected := False, comment := Some NoTcppData\<rparr>)"

definition generateConstructorSplit :: "ChannelData list \<Rightarrow> BriefData \<Rightarrow> string list \<Rightarrow> Logic
    \<Rightarrow> Weights option \<Rightarrow> ChannelData list" where
  "generateConstructorSplit allChannels brief selectedChannelNames logic weights =
     optimizeSplit (map (constructor_select selectedChannelNames) allChannels) brief logic True weights"

text \<open>\<^verbatim>\<open>generateManualSharesSplit\<close> (lines 552-584). \<^verbatim>\<open>Object.keys(brief.regionBriefs)[0]\<close> is
  \<^verbatim>\<open>undefined\<close> for an empty brief, and no region equals it. The map of entered shares
  is a partial function from channel names to percentages.\<close>

definition first_region :: "BriefData \<Rightarrow> string option" where
  "first_region brief = (case regions brief of [] \<Rightarrow> None | r # rs \<Rightarrow> Some r)"

definition manual_share :: "string option \<Rightarrow> (string \<rightharpoonup> real) \<Rightarrow> ChannelData \<Rightarrow> ChannelData" where
  "manual_share r shares d =
     (if Some (region d) = r
      then (case shares (channel d) of
              Some sharePercent \<Rightarrow>
                if 0 < sharePercent
                then d\<lparr>selected := True, share := Some (sharePercent / 100),
                       trp := Some (sharePercent / 100 * 1000), comment := Some ManualShare\<rparr>
                else d\<lparr>selected := False, share := Some 0, trp := Some 0, comment := Some ZeroShare\<rparr>
            | None \<Rightarrow>
                d\<lparr>selected := False, share := Some 0, trp := Some 0, comment := Some NotChosen\<rparr>)
      else d\<lparr>selected := False, share := Some 0, trp := Some 0, comment := None\<rparr>)"

definition generateManualSharesSplit :: "ChannelData list \<Rightarrow> BriefData \<Rightarrow> (string \<rightharpoonup> real)
    \<Rightarrow> ChannelData list" where
  "generateManualSharesSplit allChannels brief shares =
     sort_records (map (manual_share (first_region brief) shares) allChannels)"

subsection \<open>The batch computation (\<^verbatim>\<open>processFilesAndCalculate\<close>, lines 297-346)\<close>

text \<open>A row of the ratings table after the columns have been located and parsed
  (lines 258-295): the brief key of its region, the display name, the three parsed
  ratings (\<open>None\<close> for \<^verbatim>\<open>NaN\<close>), the price found in the price table, the buy type
  (\<open>''GRP''\<close>, or \<open>''Min''\<close> for the minute-based type), the target audience and the
  position of the region in the brief.\<close>

record RatingsRow =
  originalBriefKey :: string
  channelForDisplay :: string
  avgTvrTa :: "real option"
  totalTvrTa :: "real option"
  originalSalesTvr :: "real option"
  row_cpp :: "real option"
  channelType :: string
  row_ta :: string
  row_sortOrder :: nat

text \<open>Lines 297-306. \<^verbatim>\<open>cpp && ...\<close> asks for a price that is neither null nor 0.\<close>

definition row_aff :: "RatingsRow \<Rightarrow> real option" where
  "row_aff row =
     (case (totalTvrTa row, originalSalesTvr row) of
        (Some t, Some s) \<Rightarrow> if 0 < t \<and> 0 < s then Some (t / s) else None
      | _ \<Rightarrow> None)"

definition row_tcpp :: "RatingsRow \<Rightarrow> real option" where
  "row_tcpp row =
     (case row_cpp row of
        None \<Rightarrow> None
      | Some c \<Rightarrow>
          if c = 0 then None
          else if channelType row = ''GRP''
          then (case row_aff row of
                  None \<Rightarrow> None
                | Some a \<Rightarrow> if 0 < a then Some (c / a) else None)
          else if channelType row = ''Min''
          then (case avgTvrTa row of
                  None \<Rightarrow> None
                | Some v \<Rightarrow> if 0 < v then Some (c / 3 / v) else None)
          else None)"

definition row_salesTvr :: "RatingsRow \<Rightarrow> real option" where
  "row_salesTvr row =
     (case (row_aff row, avgTvrTa row) of
        (Some a, Some v) \<Rightarrow> if 0 < a then Some (v / a) else None
      | _ \<Rightarrow> None)"

text \<open>The record pushed onto \<^verbatim>\<open>initialData\<close> (lines 308-314).\<close>

definition initial_record :: "RatingsRow \<Rightarrow> ChannelData" where
  "initial_record row =
     \<lparr>region = originalBriefKey row, channel = channelForDisplay row, type = channelType row,
      ta = row_ta row, tvrTa = avgTvrTa row, aff = row_aff row, salesTvr = row_salesTvr row,
      cpp = row_cpp row, tcpp = row_tcpp row, indexTcpp = None, selected = False,
      weightedRating = None, share = None, trp = None, comment = None,
      sortOrder = row_sortOrder row\<rparr>"

text \<open>The relative cost index for one region (lines 319-327).\<close>

definition has_tcpp_in :: "string \<Rightarrow> ChannelData \<Rightarrow> bool" where
  "has_tcpp_in r d = (region d = r \<and> tcpp d \<noteq> None)"

definition maxTcpp :: "string \<Rightarrow> ChannelData list \<Rightarrow> real" where
  "maxTcpp r data = list_max (map (\<lambda>d. or0 (tcpp d)) (filter (has_tcpp_in r) data))"

definition index_record :: "string \<Rightarrow> real \<Rightarrow> ChannelData \<Rightarrow> ChannelData" where
  "index_record r m d =
     (if has_tcpp_in r d \<and> 0 < m then d\<lparr>indexTcpp := Some (or0 (tcpp d) / m)\<rparr> else d)"

definition index_step :: "string \<Rightarrow> ChannelData list \<Rightarrow> ChannelData list" where
  "index_step r data =
     (if filter (has_tcpp_in r) data = [] then data
      else map (index_record r (maxTcpp r data)) data)"

definition index_pass :: "BriefData \<Rightarrow> ChannelData list \<Rightarrow> ChannelData list" where
  "index_pass brief data = fold index_step (regions brief) data"

text \<open>The four systematic variants (lines 331-336): \<^verbatim>\<open>name\<close>, \<^verbatim>\<open>logic\<close>, \<^verbatim>\<open>applyLimits\<close>.\<close>

record SplitConfig =
  config_name :: string
  config_logic :: Logic
  config_applyLimits :: bool

definition splitConfigs :: "SplitConfig list" where
  "splitConfigs =
     [\<lparr>config_name = ''Split (TCPP)'', config_logic = TCPP, config_applyLimits = True\<rparr>,
      \<lparr>config_name = ''Split (Affinity)'', config_logic = Affinity, config_applyLimits = True\<rparr>,
      \<lparr>config_name = ''Split (Efficiency)'', config_logic = Efficiency, config_applyLimits = True\<rparr>,
      \<lparr>config_name = ''Split (Natural)'', config_logic = Natural, config_applyLimits = False\<rparr>]"

text \<open>The result of the batch computation without the summaries, which are derived from
  \<open>splits\<close> and change no record.\<close>

record CalculationResults =
  splits :: "(string \<times> ChannelData list) list"
  initialData :: "ChannelData list"

definition calculate :: "RatingsRow list \<Rightarrow> BriefData \<Rightarrow> CalculationResults" where
  "calculate rows brief =
     (let base = index_pass brief (map initial_record rows) in
      \<lparr>splits = map (\<lambda>config. (config_name config,
                  generateSingleSplit base brief (config_logic config) (config_applyLimits config)))
                splitConfigs,
       initialData = base\<rparr>)"

subsection \<open>Records and arrays in a store\<close>

text \<open>The functions above compute with record lists as values. In the program a list is an
  array of references to mutable records, and the functions change the records of the
  array they work on. The store makes that sharing explicit.\<close>

text \<open>A store: the objects (records) and the arrays (lists of references to records)
  that exist, each under its reference, and the next unused reference.\<close>

record store =
  objects :: "nat \<rightharpoonup> ChannelData"
  arrays :: "nat \<rightharpoonup> nat list"
  next_ref :: nat

text \<open>The references an array holds, and the records they point to.\<close>

definition array_of :: "store \<Rightarrow> nat \<Rightarrow> nat list" where
  "array_of s a = (case arrays s a of None \<Rightarrow> [] | Some ps \<Rightarrow> ps)"

definition contents :: "store \<Rightarrow> nat \<Rightarrow> ChannelData list" where
  "contents s a = List.map_filter (objects s) (array_of s a)"

text \<open>Writing the records \<open>ds\<close> through the references \<open>ps\<close>, one after the other.\<close>

fun write_all :: "nat list \<Rightarrow> ChannelData list \<Rightarrow> (nat \<rightharpoonup> ChannelData) \<Rightarrow> (nat \<rightharpoonup> ChannelData)" where
  "write_all (p # ps) (d # ds) m = write_all ps ds (m(p \<mapsto> d))"
| "write_all ps ds m = m"

text \<open>A block of code that reads the records of array \<open>a\<close> and assigns to their fields
  (\<^verbatim>\<open>data.forEach(d => ...)\<close>, also through the arrays \<^verbatim>\<open>data.filter(...)\<close> builds, which hold
  the same references): it leaves the array itself alone and replaces each record by the
  one that \<open>f\<close> computes for its position. The model is exact for an array that holds each
  record once, as every array the program builds does.\<close>

definition mutate :: "(ChannelData list \<Rightarrow> ChannelData list) \<Rightarrow> nat \<Rightarrow> store \<Rightarrow> store" where
  "mutate f a s = s\<lparr>objects := write_all (array_of s a) (f (contents s a)) (objects s)\<rparr>"

text \<open>\<^verbatim>\<open>data.sort(...)\<close> reorders the references of the array in place.\<close>

definition rank_at :: "store \<Rightarrow> nat \<Rightarrow> nat \<times> real" where
  "rank_at s p = (case objects s p of None \<Rightarrow> (0, 0) | Some d \<Rightarrow> rank d)"

definition sort_in_place :: "nat \<Rightarrow> store \<Rightarrow> store" where
  "sort_in_place a s =
     (case arrays s a of
        None \<Rightarrow> s
      | Some ps \<Rightarrow> s\<lparr>arrays := (arrays s)(a \<mapsto> sort_key (rank_at s) ps)\<rparr>)"

text \<open>\<^verbatim>\<open>JSON.parse(JSON.stringify(xs))\<close>: new records with the same field values under unused
  references, in a new array.\<close>

definition deep_copy :: "nat \<Rightarrow> store \<Rightarrow> store \<times> nat" where
  "deep_copy a s =
     (let ds = contents s a;
          ps = [next_ref s ..< next_ref s + length ds];
          c = next_ref s + length ds
      in (s\<lparr>objects := write_all ps ds (objects s), arrays := (arrays s)(c \<mapsto> ps),
            next_ref := c + 1\<rparr>, c))"

text \<open>The functions of the program on the store. The first argument is the reference of
  the array they are given; the result is the new store and the reference of the array
  they return. \<^verbatim>\<open>optimizeSplit\<close> and \<^verbatim>\<open>generateSingleSplit\<close> work on the array they are
  given and return it; \<^verbatim>\<open>generateConstructorSplit\<close> and \<^verbatim>\<open>generateManualSharesSplit\<close> start
  with a deep copy (lines 532 and 557).\<close>

definition optimizeSplit_st :: "nat \<Rightarrow> BriefData \<Rightarrow> Logic \<Rightarrow> bool \<Rightarrow> Weights option \<Rightarrow> store
    \<Rightarrow> store \<times> nat" where
  "optimizeSplit_st a brief logic applyLimits weights s =
     (sort_in_place a (mutate (\<lambda>ds. optimize_records ds brief logic applyLimits weights) a s), a)"

definition generateSingleSplit_st :: "nat \<Rightarrow> BriefData \<Rightarrow> Logic \<Rightarrow> bool \<Rightarrow> store \<Rightarrow> store \<times> nat" where
  "generateSingleSplit_st a brief logic applyLimits s =
     optimizeSplit_st a brief logic applyLimits None
       (mutate (\<lambda>ds. initial_selection ds brief logic) a s)"

definition generateConstructorSplit_st :: "nat \<Rightarrow> BriefData \<Rightarrow> string list \<Rightarrow> Logic
    \<Rightarrow> Weights option \<Rightarrow> store \<Rightarrow> store \<times> nat" where
  "generateConstructorSplit_st allChannels brief selectedChannelNames logic weights s =
     (case deep_copy allChannels s of
        (s1, c) \<Rightarrow> optimizeSplit_st c brief logic True weights
                     (mutate (map (constructor_select selectedChannelNames)) c s1))"

definition generateManualSharesSplit_st :: "nat \<Rightarrow> BriefData \<Rightarrow> (string \<rightharpoonup> real) \<Rightarrow> store
    \<Rightarrow> store \<times> nat" where
  "generateManualSharesSplit_st allChannels brief shares s =
     (case deep_copy allChannels s of
        (s1, c) \<Rightarrow> (sort_in_place c (mutate (map (manual_share (first_region brief) shares)) c s1), c))"

text \<open>The loop of lines 339-341: each variant is computed on a deep copy of
  \<^verbatim>\<open>initialData\<close>.\<close>

fun calculate_splits_st :: "SplitConfig list \<Rightarrow> nat \<Rightarrow> BriefData \<Rightarrow> store
    \<Rightarrow> store \<times> (string \<times> nat) list" where
  "calculate_splits_st [] a brief s = (s, [])"
| "calculate_splits_st (config # configs) a brief s =
     (case deep_copy a s of
        (s1, c) \<Rightarrow>
          (case generateSingleSplit_st c brief (config_logic config) (config_applyLimits config) s1 of
             (s2, res) \<Rightarrow>
               (case calculate_splits_st configs a brief s2 of
                  (s3, rest) \<Rightarrow> (s3, (config_name config, res) # rest))))"

text \<open>An array that exists in the store with all its references; an array that holds
  each of its records once; two stores that agree on every reference below \<open>n\<close>; an array
  made of references from \<open>n\<close> on.\<close>

definition allocated :: "store \<Rightarrow> nat \<Rightarrow> bool" where
  "allocated s a = (a < next_ref s \<and> list_all (\<lambda>p. p < next_ref s) (array_of s a))"

definition owned :: "store \<Rightarrow> nat \<Rightarrow> bool" where
  "owned s a = (arrays s a \<noteq> None \<and> distinct (array_of s a)
                \<and> list_all (\<lambda>p. objects s p \<noteq> None) (array_of s a))"

definition same_below :: "nat \<Rightarrow> store \<Rightarrow> store \<Rightarrow> bool" where
  "same_below n s s' = (\<forall>p<n. objects s' p = objects s p \<and> arrays s' p = arrays s p)"

definition fresh_from :: "nat \<Rightarrow> store \<Rightarrow> nat \<Rightarrow> bool" where
  "fresh_from n s c = (n \<le> c \<and> list_all (\<lambda>p. n \<le> p) (array_of s c))"

subsection \<open>Observations on results\<close>

text \<open>\<^verbatim>\<open>results.splits[name]\<close>, the sum of the shares of the selected records of a region,
  and the part of a record the share invariants speak about.\<close>

definition variant :: "CalculationResults \<Rightarrow> string \<Rightarrow> ChannelData list" where
  "variant res nm = (case map_of (splits res) nm of None \<Rightarrow> [] | Some ds \<Rightarrow> ds)"

definition selected_share_sum :: "string \<Rightarrow> ChannelData list \<Rightarrow> real" where
  "selected_share_sum r data = sum_over share0 (filter (selected_in r) data)"

definition outcome :: "ChannelData \<Rightarrow> string \<times> bool \<times> real option \<times> real option" where
  "outcome d = (channel d, selected d, share d, trp d)"

subsection \<open>Example inputs\<close>

text \<open>One region \<open>R\<close> with the default floor of 2 percent and cutoff of 20 percent, and an
  orbital cap of 30 percent. Every example row is a GRP channel with affinity 1, so its
  cost per target point is its price.\<close>

definition ex_brief :: BriefData where
  "ex_brief = [(''R'', \<lparr>targetAudience = ''All 18+'', minChannelShare = Some 2,
                       maxOrbitalShare = Some 30, expensiveChannelCutoff = Some 20\<rparr>)]"

definition ex_row :: "string \<Rightarrow> real \<Rightarrow> real \<Rightarrow> RatingsRow" where
  "ex_row ch tvr price =
     \<lparr>originalBriefKey = ''R'', channelForDisplay = ch, avgTvrTa = Some tvr, totalTvrTa = Some 5,
      originalSalesTvr = Some 5, row_cpp = Some price, channelType = ''GRP'', row_ta = ''All 18+'',
      row_sortOrder = 1\<rparr>"

text \<open>Two orbital channels.\<close>

definition ex_orbital_rows :: "RatingsRow list" where
  "ex_orbital_rows = [ex_row ''A - 0'' 99 200, ex_row ''B - 0'' 1 100]"

text \<open>Two channels with an average rating of 0.\<close>

definition ex_zero_rows :: "RatingsRow list" where
  "ex_zero_rows = [ex_row ''P'' 0 100, ex_row ''Q'' 0 200]"

text \<open>A record of the base snapshot, and three channels of equal price picked through the
  allow-list.\<close>

definition ex_record :: "string \<Rightarrow> real \<Rightarrow> real \<Rightarrow> real \<Rightarrow> ChannelData" where
  "ex_record ch tvr price idx =
     \<lparr>region = ''R'', channel = ch, type = ''GRP'', ta = ''All 18+'', tvrTa = Some tvr,
      aff = Some 1, salesTvr = Some tvr, cpp = Some price, tcpp = Some price,
      indexTcpp = Some idx, selected = False, weightedRating = None, share = None, trp = None,
      comment = None, sortOrder = 1\<rparr>"

definition ex_three :: "ChannelData list" where
  "ex_three = map (constructor_select [''A'', ''B'', ''C''])
     [ex_record ''A'' 60 100 1, ex_record ''B'' 39 100 1, ex_record ''C'' 1 100 1]"

text \<open>Entered shares, and a record of a region that is not the brief's.\<close>

definition ex_shares :: "string \<rightharpoonup> real" where
  "ex_shares = map_of [(''A'', 70), (''B'', 30), (''C'', 0)]"

definition ex_other :: ChannelData where
  "ex_other = (ex_record ''A'' 5 100 1)\<lparr>region := ''S'', selected := True, share := Some (1 / 2),
     trp := Some 500, comment := Some ManualShare\<rparr>"

text \<open>The cutoff selection of the Efficiency variant on the zero-rating rows.\<close>

definition ex_zero_selected :: "ChannelData list" where
  "ex_zero_selected =
     initial_selection (initialData (calculate ex_zero_rows ex_brief)) ex_brief Efficiency"

text \<open>Two channels with the same price, and the part of a record the cost index speaks
  about.\<close>

definition ex_tie_rows :: "RatingsRow list" where
  "ex_tie_rows = [ex_row ''A'' 60 100, ex_row ''B'' 39 100]"

definition index_outcome :: "ChannelData \<Rightarrow> string \<times> string \<times> real option \<times> real option" where
  "index_outcome d = (region d, channel d, tcpp d, indexTcpp d)"

text \<open>The orbital cap configured for a region, if any (the test of line 435).\<close>

definition orbital_cap :: "BriefData \<Rightarrow> string \<Rightarrow> real option" where
  "orbital_cap brief r = (case regionBrief brief r of None \<Rightarrow> None | Some rb \<Rightarrow> maxOrbitalShare rb)"

text \<open>An orbital and a network channel picked through the allow-list.\<close>

definition ex_mixed :: "ChannelData list" where
  "ex_mixed = map (constructor_select [''A - 0'', ''B''])
     [ex_record ''A - 0'' 60 100 1, ex_record ''B'' 40 100 1]"

text \<open>The orbital step of a region leaves the sum of its selected shares alone: no cap is
  configured, or the orbital shares are within the cap, or the selected non-orbital
  shares total more than 0 and take up the freed share (the cap is not negative).\<close>

definition cap_redistributes :: "BriefData \<Rightarrow> string \<Rightarrow> ChannelData list \<Rightarrow> bool" where
  "cap_redistributes brief r X =
     (case orbital_cap brief r of
        None \<Rightarrow> True
      | Some cap \<Rightarrow> totalOrbitalShare r X \<le> cap / 100 \<or> (0 < totalNetworkShare r X \<and> 0 \<le> cap))"



text \<open>A region with a cutoff of 28 percent, and 25 channels with the prices 1 to 25.\<close>

definition ex_round_brief :: BriefData where
  "ex_round_brief = [(''R'', \<lparr>targetAudience = ''All 18+'', minChannelShare = Some 2,
                             maxOrbitalShare = None, expensiveChannelCutoff = Some 28\<rparr>)]"

definition ex_round_rows :: "RatingsRow list" where
  "ex_round_rows = map (\<lambda>(ch, price). ex_row ch 10 price)
       [(''C01'', 1), (''C02'', 2), (''C03'', 3), (''C04'', 4), (''C05'', 5),
        (''C06'', 6), (''C07'', 7), (''C08'', 8), (''C09'', 9), (''C10'', 10),
        (''C11'', 11), (''C12'', 12), (''C13'', 13), (''C14'', 14), (''C15'', 15),
        (''C16'', 16), (''C17'', 17), (''C18'', 18), (''C19'', 19), (''C20'', 20),
        (''C21'', 21), (''C22'', 22), (''C23'', 23), (''C24'', 24), (''C25'', 25)]"


text \<open>A store with the base snapshot of the two orbital rows in array 2.\<close>

definition ex_store :: store where
  "ex_store =
     \<lparr>objects = [0 \<mapsto> ex_record ''A - 0'' 99 200 1, 1 \<mapsto> ex_record ''B - 0'' 1 100 (1 / 2)],
      arrays = [2 \<mapsto> [0, 1]], next_ref = 3\<rparr>"

text \<open>Three channels with ratings 1, 60 and 39; the third is the most expensive.\<close>

definition ex_floor_rows :: "RatingsRow list" where
  "ex_floor_rows = [ex_row ''X'' 1 50, ex_row ''Y'' 60 100, ex_row ''Z'' 39 200]"

section \<open>Properties\<close>

lemmas model_defs = or0_def or1_def positive_def sum_over_def share0_def selected_in_def
  rating_aff_def rating_tcpp_def rating_eff_def wr_of_def normalized_def custom_rating_def avg_tcpp_def
  assign_rating_def set_ratings_def totalWeightedRating_def set_shares_def region_step_def minShare_def
  below_floor_def deselect_low_def shares_pass_def pass_data_def changesMade_def is_orbital_def
  orbital_in_def network_in_def totalOrbitalShare_def totalNetworkShare_def scale_orbital_def
  redistribute_def orbital_step_def orbital_pass_def finalize_def rank_def sort_records_def loop_result_def
  optimize_records_def optimizeSplit_def has_index_in_def cutoffValue_def ranked_def channelsToCut_def
  channelsToExclude_def cutoff_record_def cutoff_step_def natural_select_def initial_selection_def generateSingleSplit_def
  constructor_select_def generateConstructorSplit_def first_region_def manual_share_def
  generateManualSharesSplit_def row_aff_def row_tcpp_def row_salesTvr_def initial_record_def
  has_tcpp_in_def maxTcpp_def index_record_def index_step_def index_pass_def regions_def regionBrief_def
  selected_share_sum_def outcome_def Let_def

text \<open>The equations that evaluate the double-precision count on numerals.\<close>

lemmas double_defs = double_divide_def round_double_def nearest_def round_half_even_def exponent_def
  pow2_def exponent_up.simps exponent_down.simps

subsection \<open>The batch computation, unfolded\<close>

lemma calculate_initialData:
  "initialData (calculate rows brief) = index_pass brief (map initial_record rows)"
  by (simp add: calculate_def Let_def)

lemma calculate_splits:
  "splits (calculate rows brief) =
     [(''Split (TCPP)'', generateSingleSplit (initialData (calculate rows brief)) brief TCPP True),
      (''Split (Affinity)'', generateSingleSplit (initialData (calculate rows brief)) brief Affinity True),
      (''Split (Efficiency)'', generateSingleSplit (initialData (calculate rows brief)) brief Efficiency True),
      (''Split (Natural)'', generateSingleSplit (initialData (calculate rows brief)) brief Natural False)]"
  by (simp add: calculate_def splitConfigs_def Let_def)

lemma variant_TCPP:
  "variant (calculate rows brief) ''Split (TCPP)''
     = generateSingleSplit (initialData (calculate rows brief)) brief TCPP True"
  by (simp add: variant_def calculate_splits)

lemma variant_Affinity:
  "variant (calculate rows brief) ''Split (Affinity)''
     = generateSingleSplit (initialData (calculate rows brief)) brief Affinity True"
  by (simp add: variant_def calculate_splits)

lemma variant_Efficiency:
  "variant (calculate rows brief) ''Split (Efficiency)''
     = generateSingleSplit (initialData (calculate rows brief)) brief Efficiency True"
  by (simp add: variant_def calculate_splits)

lemma variant_Natural:
  "variant (calculate rows brief) ''Split (Natural)''
     = generateSingleSplit (initialData (calculate rows brief)) brief Natural False"
  by (simp add: variant_def calculate_splits)

text \<open>The base snapshots of the examples.\<close>

lemma ex_orbital_base:
  "initialData (calculate ex_orbital_rows ex_brief)
     = [ex_record ''A - 0'' 99 200 1, ex_record ''B - 0'' 1 100 (1 / 2)]"
  by (simp add: calculate_initialData ex_orbital_rows_def ex_row_def ex_brief_def ex_record_def
        model_defs)

lemma ex_zero_base:
  "initialData (calculate ex_zero_rows ex_brief)
     = [ex_record ''P'' 0 100 (1 / 2), ex_record ''Q'' 0 200 1]"
  by (simp add: calculate_initialData ex_zero_rows_def ex_row_def ex_brief_def ex_record_def
        model_defs)

subsection \<open>The loop\<close>

lemma optimize_loop_passes:
  "iterationCount < 20 \<Longrightarrow>
   \<exists>n. 1 \<le> n \<and> iterationCount + n \<le> 20
     \<and> fst (optimize_loop brief logic applyLimits weights iterationCount data)
         = (pass_data brief logic applyLimits weights ^^ n) data
     \<and> (\<forall>k<n - 1. changesMade brief logic applyLimits weights
            ((pass_data brief logic applyLimits weights ^^ k) data))
     \<and> (iterationCount + n < 20 \<longrightarrow> \<not> changesMade brief logic applyLimits weights
            ((pass_data brief logic applyLimits weights ^^ (n - 1)) data))"
proof (induction brief logic applyLimits weights iterationCount data rule: optimize_loop.induct)
  case (1 brief logic applyLimits weights iterationCount data)
  let ?pd = "pass_data brief logic applyLimits weights"
  let ?pc = "changesMade brief logic applyLimits weights"
  show ?case
  proof (cases "?pc data")
    case False
    then have "fst (optimize_loop brief logic applyLimits weights iterationCount data) = ?pd data"
      using "1.prems" by (simp add: optimize_loop.simps)
    with False "1.prems" show ?thesis
      by (intro exI [of _ 1]) simp
  next
    case True
    show ?thesis
    proof (cases "iterationCount + 1 < 20")
      case False
      with "1.prems" have eq: "iterationCount = 19" by simp
      have "fst (optimize_loop brief logic applyLimits weights iterationCount data) = ?pd data"
        using True eq
        by (simp add: optimize_loop.simps [of _ _ _ _ 19] optimize_loop.simps [of _ _ _ _ 20])
      with eq show ?thesis
        by (intro exI [of _ 1]) simp
    next
      case lt: True
      from "1.IH" [OF _ True] lt "1.prems"
      obtain n where n: "1 \<le> n" "iterationCount + 1 + n \<le> 20"
        "fst (optimize_loop brief logic applyLimits weights (iterationCount + 1) (?pd data))
           = (?pd ^^ n) (?pd data)"
        "\<forall>k<n - 1. ?pc ((?pd ^^ k) (?pd data))"
        "iterationCount + 1 + n < 20 \<longrightarrow> \<not> ?pc ((?pd ^^ (n - 1)) (?pd data))"
        by auto
      have unfold: "fst (optimize_loop brief logic applyLimits weights iterationCount data)
           = fst (optimize_loop brief logic applyLimits weights (iterationCount + 1) (?pd data))"
        using True "1.prems" by (subst optimize_loop.simps) simp
      have a: "\<forall>k<Suc n - 1. ?pc ((?pd ^^ k) data)"
      proof (intro allI impI)
        fix k assume k: "k < Suc n - 1"
        show "?pc ((?pd ^^ k) data)"
        proof (cases k)
          case 0 with True show ?thesis by simp
        next
          case (Suc j)
          with k n(4) have "?pc ((?pd ^^ j) (?pd data))" by simp
          then show ?thesis by (simp add: Suc funpow_swap1)
        qed
      qed
      have b: "iterationCount + Suc n < 20 \<longrightarrow> \<not> ?pc ((?pd ^^ (Suc n - 1)) data)"
        using n(1,5) by (cases n) (simp_all add: funpow_swap1)
      show ?thesis
        apply (rule exI [of _ "Suc n"])
        using n(2) a b unfold n(3) by (simp add: funpow_swap1)
    qed
  qed
qed

lemma optimize_loop_no_limits:
  "optimize_loop brief logic False weights 0 data = (shares_pass brief logic weights data, 1)"
  by (subst optimize_loop.simps) (simp add: changesMade_def pass_data_def)

lemma ex_three_changes1: "changesMade ex_brief Natural True None ex_three"
  by (simp add: ex_three_def ex_record_def ex_brief_def model_defs)

lemma ex_three_changes2:
  "\<not> changesMade ex_brief Natural True None (pass_data ex_brief Natural True None ex_three)"
  by (simp add: ex_three_def ex_record_def ex_brief_def model_defs)

text \<open>
  C7. The loop always returns (\<open>optimize_loop\<close> is a total function: its counter
  strictly approaches 21). Its result is the data after \<open>n\<close> passes for some \<open>n\<close> between
  1 and 20; every pass before the last one deselected a channel; and when fewer than 20
  passes ran, the last pass deselected none, so the loop stops as soon as a pass changes
  nothing and never runs a 21st pass.
\<close>

theorem optimize_loop_at_most_20_passes:
  "\<exists>n. 1 \<le> n \<and> n \<le> 20
     \<and> loop_result brief logic applyLimits weights data
         = (pass_data brief logic applyLimits weights ^^ n) data
     \<and> (\<forall>k<n - 1. changesMade brief logic applyLimits weights
            ((pass_data brief logic applyLimits weights ^^ k) data))
     \<and> (n < 20 \<longrightarrow> \<not> changesMade brief logic applyLimits weights
            ((pass_data brief logic applyLimits weights ^^ (n - 1)) data))"
  using optimize_loop_passes [of 0 brief logic applyLimits weights data]
  by (simp add: loop_result_def)

text \<open>Witness for C7: three channels with ratings 60, 39 and 1 under a floor of 2 percent.
  The first pass deselects the third channel, the second pass changes nothing, and the
  loop returns the data after exactly two passes.\<close>

theorem optimize_loop_at_most_20_passes_witness:
  "loop_result ex_brief Natural True None ex_three
     = pass_data ex_brief Natural True None (pass_data ex_brief Natural True None ex_three)
   \<and> changesMade ex_brief Natural True None ex_three
   \<and> \<not> changesMade ex_brief Natural True None (pass_data ex_brief Natural True None ex_three)"
proof -
  let ?pd = "pass_data ex_brief Natural True None"
  let ?pc = "changesMade ex_brief Natural True None"
  from optimize_loop_at_most_20_passes [of ex_brief Natural True None ex_three]
  obtain n where n: "1 \<le> n" "n \<le> 20"
    "loop_result ex_brief Natural True None ex_three = (?pd ^^ n) ex_three"
    "\<forall>k<n - 1. ?pc ((?pd ^^ k) ex_three)" "n < 20 \<longrightarrow> \<not> ?pc ((?pd ^^ (n - 1)) ex_three)"
    by blast
  have "n \<noteq> 1"
    using n(5) ex_three_changes1 by auto
  moreover have "\<not> 2 < n"
  proof
    assume "2 < n"
    then have "(1::nat) < n - 1" by simp
    with n(4) have "?pc ((?pd ^^ 1) ex_three)" by blast
    then show False using ex_three_changes2 by simp
  qed
  ultimately have "n = 2" using n(1) by linarith
  with n(3) have "loop_result ex_brief Natural True None ex_three = ?pd (?pd ex_three)"
    by (simp add: numeral_2_eq_2)
  then show ?thesis using ex_three_changes1 ex_three_changes2 by simp
qed

subsection \<open>A total weighted rating that is not positive\<close>

lemma set_shares_skip:
  "totalWeightedRating r data \<le> 0 \<Longrightarrow> set_shares r data = data"
  by (simp add: set_shares_def Let_def)

lemma map_share_set_ratings: "map share (set_ratings logic weights r data) = map share data"
  by (simp add: set_ratings_def)

lemma ex_zero_selected_eq:
  "ex_zero_selected
     = [(ex_record ''P'' 0 100 (1 / 2))\<lparr>selected := True\<rparr>,
        (ex_record ''Q'' 0 200 1)\<lparr>selected := False, comment := Some ExpensiveIndex\<rparr>]"
  unfolding ex_zero_selected_def ex_zero_base
  by (simp add: ex_brief_def ex_record_def model_defs double_defs)

text \<open>
  C9. When the total weighted rating of the selected channels of a region is not
  strictly positive, the normalization step is the identity (no division takes place)
  and the pass leaves every share as it was. In the Efficiency variant of the batch on
  two channels with rating 0, the channel that survives the cutoff is finalized selected
  with share \<^verbatim>\<open>null\<close> and 0 points.
\<close>

theorem nonpositive_total_skips_normalization:
  "(totalWeightedRating r (set_ratings logic weights r data) \<le> 0 \<longrightarrow>
      set_shares r (set_ratings logic weights r data) = set_ratings logic weights r data
      \<and> map share (region_step logic weights r data) = map share data)
   \<and> map outcome (variant (calculate ex_zero_rows ex_brief) ''Split (Efficiency)'')
       = [(''P'', True, None, Some 0), (''Q'', False, Some 0, Some 0)]"
proof (intro conjI impI)
  assume le: "totalWeightedRating r (set_ratings logic weights r data) \<le> 0"
  then show "set_shares r (set_ratings logic weights r data) = set_ratings logic weights r data"
    by (rule set_shares_skip)
  then show "map share (region_step logic weights r data) = map share data"
    by (simp add: region_step_def map_share_set_ratings)
next
  show "map outcome (variant (calculate ex_zero_rows ex_brief) ''Split (Efficiency)'')
       = [(''P'', True, None, Some 0), (''Q'', False, Some 0, Some 0)]"
    unfolding variant_Efficiency ex_zero_base
    by (simp add: ex_brief_def ex_record_def model_defs double_defs optimize_loop.simps)
qed

text \<open>Witness for C9: after the cutoff on the zero-rating rows the Efficiency ratings of
  region \<open>R\<close> total 0, and the pass leaves both shares \<^verbatim>\<open>null\<close>.\<close>

theorem nonpositive_total_skips_normalization_witness:
  "totalWeightedRating ''R'' (set_ratings Efficiency None ''R'' ex_zero_selected) = 0
   \<and> map share (region_step Efficiency None ''R'' ex_zero_selected) = [None, None]"
proof -
  have tot: "totalWeightedRating ''R'' (set_ratings Efficiency None ''R'' ex_zero_selected) = 0"
    unfolding ex_zero_selected_eq by (simp add: ex_record_def model_defs)
  then have "totalWeightedRating ''R'' (set_ratings Efficiency None ''R'' ex_zero_selected) \<le> 0"
    by simp
  with nonpositive_total_skips_normalization [of "''R''" Efficiency None ex_zero_selected]
  have "map share (region_step Efficiency None ''R'' ex_zero_selected) = map share ex_zero_selected"
    by blast
  also have "\<dots> = [None, None]"
    unfolding ex_zero_selected_eq by (simp add: ex_record_def)
  finally show ?thesis using tot by simp
qed

subsection \<open>Entered shares\<close>

lemma mset_sort_records: "mset (sort_records data) = mset data"
  by (simp add: sort_records_def)

lemma manual_share_keeps: "region (manual_share r shares d) = region d"
    "channel (manual_share r shares d) = channel d"
  by (simp_all add: manual_share_def split: option.splits)

lemma manual_share_positive:
  "Some (region d) = r \<Longrightarrow> shares (channel d) = Some v \<Longrightarrow> 0 < v \<Longrightarrow>
     selected (manual_share r shares d) \<and> share (manual_share r shares d) = Some (v / 100)
     \<and> trp (manual_share r shares d) = Some (v / 100 * 1000)"
  by (simp add: manual_share_def)

lemma manual_share_absent:
  "Some (region d) = r \<Longrightarrow> shares (channel d) = None \<or> (\<exists>v. shares (channel d) = Some v \<and> v \<le> 0) \<Longrightarrow>
     \<not> selected (manual_share r shares d) \<and> share (manual_share r shares d) = Some 0
     \<and> trp (manual_share r shares d) = Some 0"
  by (auto simp add: manual_share_def)

lemma manual_share_other:
  "Some (region d) \<noteq> r \<Longrightarrow>
     \<not> selected (manual_share r shares d) \<and> share (manual_share r shares d) = Some 0
     \<and> trp (manual_share r shares d) = Some 0 \<and> comment (manual_share r shares d) = None"
  by (simp add: manual_share_def)

text \<open>
  C10. The result of \<^verbatim>\<open>generateManualSharesSplit\<close> holds, up to the final sort, one record
  per input record, the image of the input record under \<open>manual_share\<close> for the first key
  of the brief. That image keeps region and channel name. In the first region, a channel
  entered with a percentage \<open>v > 0\<close> is selected with share \<open>v / 100\<close> and
  \<open>v / 100 * 1000\<close> points; every other channel of that region is unselected with share 0
  and 0 points. A record of any other region is unselected with share 0, 0 points and no
  comment, whatever its fields were.
\<close>

theorem manual_shares_split_per_record:
  "mset (generateManualSharesSplit allChannels brief shares)
     = image_mset (manual_share (first_region brief) shares) (mset allChannels)
   \<and> first_region brief = (case brief of [] \<Rightarrow> None | (r, rb) # rest \<Rightarrow> Some r)
   \<and> (\<forall>d. region (manual_share (first_region brief) shares d) = region d
          \<and> channel (manual_share (first_region brief) shares d) = channel d
          \<and> (Some (region d) = first_region brief \<longrightarrow>
                (\<forall>v. shares (channel d) = Some v \<longrightarrow> 0 < v \<longrightarrow>
                   selected (manual_share (first_region brief) shares d)
                   \<and> share (manual_share (first_region brief) shares d) = Some (v / 100)
                   \<and> trp (manual_share (first_region brief) shares d) = Some (v / 100 * 1000))
              \<and> ((shares (channel d) = None \<or> (\<exists>v. shares (channel d) = Some v \<and> v \<le> 0)) \<longrightarrow>
                   \<not> selected (manual_share (first_region brief) shares d)
                   \<and> share (manual_share (first_region brief) shares d) = Some 0
                   \<and> trp (manual_share (first_region brief) shares d) = Some 0))
          \<and> (Some (region d) \<noteq> first_region brief \<longrightarrow>
                \<not> selected (manual_share (first_region brief) shares d)
                \<and> share (manual_share (first_region brief) shares d) = Some 0
                \<and> trp (manual_share (first_region brief) shares d) = Some 0
                \<and> comment (manual_share (first_region brief) shares d) = None))"
proof (intro conjI allI impI)
  show "mset (generateManualSharesSplit allChannels brief shares)
     = image_mset (manual_share (first_region brief) shares) (mset allChannels)"
    by (simp add: generateManualSharesSplit_def mset_sort_records)
  show "first_region brief = (case brief of [] \<Rightarrow> None | (r, rb) # rest \<Rightarrow> Some r)"
    by (simp add: first_region_def regions_def split: list.splits)
qed (use manual_share_keeps manual_share_positive manual_share_absent manual_share_other in blast)+


lemma ex_first_region: "first_region ex_brief = Some ''R''"
  by (simp add: first_region_def regions_def ex_brief_def)

text \<open>Witness for C10: channel \<open>A\<close> of region \<open>R\<close> entered with 70 percent, channel \<open>D\<close>
  of region \<open>R\<close> not entered, and a record of another region that was selected with share
  1/2 before the call.\<close>

theorem manual_shares_split_per_record_witness:
  "mset (generateManualSharesSplit [ex_record ''A'' 60 100 1, ex_record ''D'' 5 100 1, ex_other]
           ex_brief ex_shares)
     = {#manual_share (Some ''R'') ex_shares (ex_record ''A'' 60 100 1),
         manual_share (Some ''R'') ex_shares (ex_record ''D'' 5 100 1),
         manual_share (Some ''R'') ex_shares ex_other#}
   \<and> outcome (manual_share (Some ''R'') ex_shares (ex_record ''A'' 60 100 1))
       = (''A'', True, Some (70 / 100), Some (70 / 100 * 1000))
   \<and> outcome (manual_share (Some ''R'') ex_shares (ex_record ''D'' 5 100 1))
       = (''D'', False, Some 0, Some 0)
   \<and> outcome (manual_share (Some ''R'') ex_shares ex_other) = (''A'', False, Some 0, Some 0)
   \<and> comment (manual_share (Some ''R'') ex_shares ex_other) = None"
proof -
  let ?A = "ex_record ''A'' 60 100 1" and ?D = "ex_record ''D'' 5 100 1"
  note inst = manual_shares_split_per_record [of "[?A, ?D, ex_other]" ex_brief ex_shares,
      unfolded ex_first_region]
  note per = inst [THEN conjunct2, THEN conjunct2, rule_format]
  have a: "Some (region ?A) = Some ''R''" "ex_shares (channel ?A) = Some 70" "channel ?A = ''A''"
    by (simp_all add: ex_record_def ex_shares_def)
  have d: "Some (region ?D) = Some ''R''" "ex_shares (channel ?D) = None" "channel ?D = ''D''"
    by (simp_all add: ex_record_def ex_shares_def)
  have o: "Some (region ex_other) \<noteq> Some ''R''" "channel ex_other = ''A''"
    by (simp_all add: ex_other_def ex_record_def)
  have 1: "mset (generateManualSharesSplit [?A, ?D, ex_other] ex_brief ex_shares)
     = {#manual_share (Some ''R'') ex_shares ?A, manual_share (Some ''R'') ex_shares ?D,
         manual_share (Some ''R'') ex_shares ex_other#}"
    using inst [THEN conjunct1] by (simp add: ac_simps)
  have pa: "selected (manual_share (Some ''R'') ex_shares ?A)
      \<and> share (manual_share (Some ''R'') ex_shares ?A) = Some (70 / 100)
      \<and> trp (manual_share (Some ''R'') ex_shares ?A) = Some (70 / 100 * 1000)"
    using per [of ?A, THEN conjunct2, THEN conjunct2, THEN conjunct1, THEN mp, OF a(1),
        THEN conjunct1, rule_format, OF a(2)] by simp
  have pd: "\<not> selected (manual_share (Some ''R'') ex_shares ?D)
      \<and> share (manual_share (Some ''R'') ex_shares ?D) = Some 0
      \<and> trp (manual_share (Some ''R'') ex_shares ?D) = Some 0"
    using per [of ?D, THEN conjunct2, THEN conjunct2, THEN conjunct1, THEN mp, OF d(1),
        THEN conjunct2, THEN mp] d(2) by simp
  have po: "\<not> selected (manual_share (Some ''R'') ex_shares ex_other)
      \<and> share (manual_share (Some ''R'') ex_shares ex_other) = Some 0
      \<and> trp (manual_share (Some ''R'') ex_shares ex_other) = Some 0
      \<and> comment (manual_share (Some ''R'') ex_shares ex_other) = None"
    using per [of ex_other, THEN conjunct2, THEN conjunct2, THEN conjunct2, THEN mp, OF o(1)] .
  have ch: "channel (manual_share (Some ''R'') ex_shares ?A) = ''A''"
      "channel (manual_share (Some ''R'') ex_shares ?D) = ''D''"
      "channel (manual_share (Some ''R'') ex_shares ex_other) = ''A''"
    using per [of ?A] per [of ?D] per [of ex_other] a(3) d(3) o(2) by simp_all
  show ?thesis
    using 1 pa pd po ch by (simp add: outcome_def)
qed

subsection \<open>The relative cost index\<close>

text \<open>\<open>list_max\<close> is the maximum of a non-empty list.\<close>

lemma list_max_Max: "xs \<noteq> [] \<Longrightarrow> list_max xs = Max (set xs)"
proof (cases xs)
  case Nil
  assume "xs \<noteq> []"
  with Nil show ?thesis by simp
next
  case (Cons a as)
  have "Max (set (a # as)) = fold max as a" by (rule Max.set_eq_fold)
  with Cons show ?thesis by simp
qed

lemma list_max_in: "xs \<noteq> [] \<Longrightarrow> list_max xs \<in> set xs"
  by (simp add: list_max_Max)

lemma list_max_ge: "x \<in> set xs \<Longrightarrow> x \<le> list_max xs"
  by (cases "xs = []") (simp_all add: list_max_Max)

text \<open>The pass over the regions acts record by record, and a record is only touched by the
  step of its own region.\<close>

lemma index_step_map: "index_step r data = map (index_record r (maxTcpp r data)) data"
proof (cases "filter (has_tcpp_in r) data = []")
  case True
  then have "\<forall>d\<in>set data. \<not> has_tcpp_in r d" by (simp add: filter_empty_conv)
  then have "map (index_record r (maxTcpp r data)) data = data"
    by (simp add: index_record_def map_idI)
  with True show ?thesis by (simp add: index_step_def)
next
  case False
  then show ?thesis by (simp add: index_step_def index_record_def)
qed

lemma index_record_keeps [simp]:
  "region (index_record r m d) = region d" "tcpp (index_record r m d) = tcpp d"
  by (simp_all add: index_record_def)

lemma maxTcpp_cong:
  assumes "map region xs = map region ys" "map tcpp xs = map tcpp ys"
  shows "maxTcpp r xs = maxTcpp r ys"
proof -
  have "map (\<lambda>d. or0 (tcpp d)) (filter (has_tcpp_in r) zs)
      = map (\<lambda>p. or0 (snd p)) (filter (\<lambda>p. fst p = r \<and> snd p \<noteq> None) (zip (map region zs) (map tcpp zs)))" for zs
    by (induction zs) (simp_all add: has_tcpp_in_def)
  with assms show ?thesis by (simp add: maxTcpp_def)
qed


lemma index_pass_map:
  "fold index_step rs data = map (\<lambda>d. fold (\<lambda>r. index_record r (maxTcpp r data)) rs d) data"
proof (induction rs arbitrary: data)
  case Nil
  then show ?case by simp
next
  case (Cons r rs)
  let ?data' = "index_step r data"
  have keep: "map region ?data' = map region data" "map tcpp ?data' = map tcpp data"
    by (simp_all add: index_step_map)
  have "fold index_step (r # rs) data = fold index_step rs ?data'" by simp
  also have "\<dots> = map (\<lambda>d. fold (\<lambda>r. index_record r (maxTcpp r ?data')) rs d) ?data'"
    by (rule Cons.IH)
  also have "\<dots> = map (\<lambda>d. fold (\<lambda>r. index_record r (maxTcpp r data)) rs d) ?data'"
    using maxTcpp_cong [OF keep] by simp
  also have "\<dots> = map (\<lambda>d. fold (\<lambda>r. index_record r (maxTcpp r data)) (r # rs) d) data"
    by (simp add: index_step_map)
  finally show ?case .
qed

lemma index_record_other: "region d \<noteq> r \<Longrightarrow> index_record r (maxTcpp r data) d = d"
  by (simp add: index_record_def has_tcpp_in_def)

lemma index_record_idem: "index_record r (maxTcpp r data) (index_record r (maxTcpp r data) d) = index_record r (maxTcpp r data) d"
  by (auto simp add: index_record_def has_tcpp_in_def)

lemma fold_index_record:
  "region d = r \<Longrightarrow>
   fold (\<lambda>r'. index_record r' (maxTcpp r' data)) rs d = (if r \<in> set rs then index_record r (maxTcpp r data) d else d)"
proof (induction rs arbitrary: d)
  case Nil
  then show ?case by simp
next
  case (Cons a rs)
  show ?case
  proof (cases "a = r")
    case True
    have "region (index_record r (maxTcpp r data) d) = r" using Cons.prems by simp
    from Cons.IH [OF this] True show ?thesis by (simp add: index_record_idem)
  next
    case False
    with Cons.prems have "index_record a (maxTcpp a data) d = d" by (simp add: index_record_other)
    with Cons.IH [OF Cons.prems] False show ?thesis by simp
  qed
qed

lemma index_pass_region:
  assumes "r \<in> set (regions brief)" "d' \<in> set (index_pass brief data)" "region d' = r"
  shows "\<exists>d\<in>set data. region d = r \<and> d' = index_record r (maxTcpp r data) d"
proof -
  from assms(2) obtain d where d: "d \<in> set data"
      "d' = fold (\<lambda>r. index_record r (maxTcpp r data)) (regions brief) d"
    unfolding index_pass_def index_pass_map by auto
  have reg: "region (fold (\<lambda>r. index_record r (maxTcpp r data)) rs x) = region x" for rs x
    by (induction rs arbitrary: x) simp_all
  from d(2) assms(3) have "region d = r" by (simp add: reg)
  with fold_index_record [OF this, of data "regions brief"] assms(1) d show ?thesis by auto
qed


lemma index_pass_image:
  "set (index_pass brief data)
     = (\<lambda>d. fold (\<lambda>r. index_record r (maxTcpp r data)) (regions brief) d) ` set data"
  by (simp add: index_pass_def index_pass_map)

lemma index_pass_region_conv:
  assumes "r \<in> set (regions brief)" "d \<in> set data" "region d = r"
  shows "index_record r (maxTcpp r data) d \<in> set (index_pass brief data)"
  using assms fold_index_record [OF assms(3), of data "regions brief"]
  by (auto simp: index_pass_image intro!: image_eqI [where x = d])

lemma index_pass_keeps:
  "map region (index_pass brief data) = map region data"
  "map tcpp (index_pass brief data) = map tcpp data"
proof -
  have "region (fold (\<lambda>r. index_record r (maxTcpp r data)) rs x) = region x
      \<and> tcpp (fold (\<lambda>r. index_record r (maxTcpp r data)) rs x) = tcpp x" for rs x
    by (induction rs arbitrary: x) simp_all
  then show "map region (index_pass brief data) = map region data"
    "map tcpp (index_pass brief data) = map tcpp data"
    by (simp_all add: index_pass_def index_pass_map)
qed

lemma row_tcpp_positive:
  assumes "row_tcpp row = Some t" "\<forall>c. row_cpp row = Some c \<longrightarrow> 0 \<le> c"
  shows "0 < t"
proof -
  from assms(1) obtain c where c: "row_cpp row = Some c" "c \<noteq> 0"
    by (auto simp: row_tcpp_def split: option.splits if_splits)
  with assms(2) have "0 < c" by fastforce
  with assms(1) c show ?thesis
    by (auto simp: row_tcpp_def split: option.splits if_splits)
qed

text \<open>
  C5, as the code has it. Take a region of the brief in which at least one channel has a
  defined cost per target point and no price is negative. In the base snapshot every
  record of the region with a defined cost per target point \<open>t\<close> has the index
  \<open>t / max\<close>, which lies in (0, 1], every other record of the region has no index, and at
  least one record of the region has index 1 (every record that attains the maximum has).
\<close>

theorem cost_index_in_unit_interval:
  assumes "r \<in> set (regions brief)"
    and "\<exists>row\<in>set rows. originalBriefKey row = r \<and> row_tcpp row \<noteq> None"
    and "\<forall>row\<in>set rows. originalBriefKey row = r \<longrightarrow> (\<forall>c. row_cpp row = Some c \<longrightarrow> 0 \<le> c)"
  shows "(\<forall>d\<in>set (initialData (calculate rows brief)). region d = r \<longrightarrow>
            (case tcpp d of
               None \<Rightarrow> indexTcpp d = None
             | Some t \<Rightarrow>
                 indexTcpp d = Some (t / maxTcpp r (initialData (calculate rows brief)))
                 \<and> 0 < t / maxTcpp r (initialData (calculate rows brief))
                 \<and> t / maxTcpp r (initialData (calculate rows brief)) \<le> 1))
       \<and> (\<exists>d\<in>set (initialData (calculate rows brief)). region d = r \<and> indexTcpp d = Some 1)"
proof -
  let ?base = "map initial_record rows"
  let ?res = "initialData (calculate rows brief)"
  let ?ts = "map (\<lambda>d. or0 (tcpp d)) (filter (has_tcpp_in r) ?base)"
  let ?m = "maxTcpp r ?base"
  have res: "?res = index_pass brief ?base" by (rule calculate_initialData)
  have m_eq: "maxTcpp r ?res = ?m"
    unfolding res by (rule maxTcpp_cong) (rule index_pass_keeps)+
  from assms(2) obtain row where row: "row \<in> set rows" "originalBriefKey row = r" "row_tcpp row \<noteq> None"
    by blast
  then have "has_tcpp_in r (initial_record row)" by (simp add: has_tcpp_in_def initial_record_def)
  with row(1) have ne: "?ts \<noteq> []" by (auto simp: filter_empty_conv)
  have pos: "0 < t" if "d \<in> set ?base" "region d = r" "tcpp d = Some t" for d t
  proof -
    from that obtain row where "row \<in> set rows" "originalBriefKey row = r" "row_tcpp row = Some t"
      by (auto simp: initial_record_def)
    with assms(3) row_tcpp_positive show ?thesis by blast
  qed
  have in_ts: "t \<in> set ?ts" if "d \<in> set ?base" "region d = r" "tcpp d = Some t" for d t
    using that by (force simp: has_tcpp_in_def or0_def)
  have ts_pos: "0 < x" if "x \<in> set ?ts" for x
  proof -
    from that obtain d where "d \<in> set ?base" "has_tcpp_in r d" "x = or0 (tcpp d)" by auto
    then obtain t where "d \<in> set ?base" "region d = r" "tcpp d = Some t" "x = t"
      by (auto simp: has_tcpp_in_def or0_def)
    with pos show ?thesis by blast
  qed
  have m_in: "?m \<in> set ?ts" unfolding maxTcpp_def using ne by (rule list_max_in)
  then have m_pos: "0 < ?m" by (rule ts_pos)
  have m_ge: "x \<le> ?m" if "x \<in> set ?ts" for x
    unfolding maxTcpp_def using that by (rule list_max_ge)
  have first: "case tcpp d of
               None \<Rightarrow> indexTcpp d = None
             | Some t \<Rightarrow> indexTcpp d = Some (t / maxTcpp r ?res) \<and> 0 < t / maxTcpp r ?res
                 \<and> t / maxTcpp r ?res \<le> 1"
    if d: "d \<in> set ?res" "region d = r" for d
  proof -
    from index_pass_region [OF assms(1) d(1) [unfolded res] d(2)]
    obtain d0 where d0: "d0 \<in> set ?base" "region d0 = r" "d = index_record r ?m d0" by blast
    from d0(1) have idx0: "indexTcpp d0 = None" by (auto simp: initial_record_def)
    show ?thesis
    proof (cases "tcpp d0")
      case None
      with d0(3) idx0 show ?thesis by (simp add: index_record_def has_tcpp_in_def)
    next
      case (Some t)
      from in_ts [OF d0(1,2) Some] have "t \<in> set ?ts" .
      with ts_pos m_ge have "0 < t" "t \<le> ?m" by blast+
      with m_pos Some d0(2,3) show ?thesis
        by (simp add: m_eq index_record_def has_tcpp_in_def or0_def)
    qed
  qed
  from m_in have "\<exists>dm\<in>set (filter (has_tcpp_in r) ?base). or0 (tcpp dm) = ?m"
    unfolding set_map by (elim imageE) (rule bexI, rule sym)
  then obtain dm where dm: "dm \<in> set ?base" "has_tcpp_in r dm" "or0 (tcpp dm) = ?m"
    unfolding set_filter by blast
  then have "region dm = r" by (simp add: has_tcpp_in_def)
  from index_pass_region_conv [OF assms(1) dm(1) this]
  have "index_record r ?m dm \<in> set ?res" by (simp add: res)
  moreover have "region (index_record r ?m dm) = r \<and> indexTcpp (index_record r ?m dm) = Some 1"
    using dm(2,3) m_pos by (simp add: index_record_def has_tcpp_in_def)
  ultimately have second: "\<exists>d\<in>set ?res. region d = r \<and> indexTcpp d = Some 1" by blast
  from first second show ?thesis by blast
qed


text \<open>Witness for C5: the two orbital rows, with prices 200 and 100.\<close>

theorem cost_index_in_unit_interval_witness:
  "''R'' \<in> set (regions ex_brief)
   \<and> map row_tcpp ex_orbital_rows = [Some 200, Some 100]
   \<and> map row_cpp ex_orbital_rows = [Some 200, Some 100]
   \<and> (\<exists>d\<in>set (initialData (calculate ex_orbital_rows ex_brief)).
         region d = ''R'' \<and> indexTcpp d = Some 1)
   \<and> map index_outcome (initialData (calculate ex_orbital_rows ex_brief))
       = [(''R'', ''A - 0'', Some 200, Some 1), (''R'', ''B - 0'', Some 100, Some (1 / 2))]"
proof -
  have r: "''R'' \<in> set (regions ex_brief)" by (simp add: regions_def ex_brief_def)
  have t: "map row_tcpp ex_orbital_rows = [Some 200, Some 100]"
    and c: "map row_cpp ex_orbital_rows = [Some 200, Some 100]"
    by (simp_all add: ex_orbital_rows_def ex_row_def row_tcpp_def row_aff_def)
  have h1: "\<exists>row\<in>set ex_orbital_rows. originalBriefKey row = ''R'' \<and> row_tcpp row \<noteq> None"
    by (simp add: ex_orbital_rows_def ex_row_def row_tcpp_def row_aff_def)
  have h2: "\<forall>row\<in>set ex_orbital_rows. originalBriefKey row = ''R'' \<longrightarrow>
      (\<forall>c. row_cpp row = Some c \<longrightarrow> 0 \<le> c)"
    by (simp add: ex_orbital_rows_def ex_row_def)
  note inst = cost_index_in_unit_interval [OF r h1 h2]
  have o: "map index_outcome (initialData (calculate ex_orbital_rows ex_brief))
       = [(''R'', ''A - 0'', Some 200, Some 1), (''R'', ''B - 0'', Some 100, Some (1 / 2))]"
    unfolding ex_orbital_base by (simp add: index_outcome_def ex_record_def)
  from r t c inst [THEN conjunct2] o show ?thesis by blast
qed

text \<open>Counterexample to C5 as stated: two channels of one region with the same price and
  affinity have the same cost per target point, and both get index 1.\<close>

theorem cost_index_tie_counterexample:
  "map index_outcome (initialData (calculate ex_tie_rows ex_brief))
     = [(''R'', ''A'', Some 100, Some 1), (''R'', ''B'', Some 100, Some 1)]"
  by (simp add: calculate_initialData ex_tie_rows_def ex_row_def ex_brief_def index_outcome_def
        model_defs)

subsection \<open>Unselected records\<close>

lemma set_sort_records: "set (sort_records data) = set data"
  by (simp add: sort_records_def)

lemma finalize_unselected:
  "\<not> selected (finalize d) \<Longrightarrow> share (finalize d) = Some 0 \<and> trp (finalize d) = Some 0"
  by (simp add: finalize_def split: if_splits)

lemma optimizeSplit_unselected:
  assumes "d \<in> set (optimizeSplit data brief logic applyLimits weights)" "\<not> selected d"
  shows "share d = Some 0 \<and> trp d = Some 0"
proof -
  from assms(1) obtain x where "d = finalize x"
    by (auto simp: optimizeSplit_def optimize_records_def set_sort_records)
  with assms(2) finalize_unselected show ?thesis by blast
qed

lemma manual_share_unselected:
  "\<not> selected (manual_share r shares d) \<Longrightarrow>
     share (manual_share r shares d) = Some 0 \<and> trp (manual_share r shares d) = Some 0"
  by (simp add: manual_share_def split: if_splits option.splits)

lemma variant_cases:
  "variant (calculate rows brief) nm = [] \<or>
   (\<exists>logic applyLimits. variant (calculate rows brief) nm
       = generateSingleSplit (initialData (calculate rows brief)) brief logic applyLimits)"
proof -
  consider "nm = ''Split (TCPP)''" | "nm = ''Split (Affinity)''" | "nm = ''Split (Efficiency)''"
    | "nm = ''Split (Natural)''"
    | "nm \<noteq> ''Split (TCPP)''" "nm \<noteq> ''Split (Affinity)''" "nm \<noteq> ''Split (Efficiency)''"
      "nm \<noteq> ''Split (Natural)''"
    by blast
  then show ?thesis
  proof cases
    case 1
    then show ?thesis using variant_TCPP by blast
  next
    case 2
    then show ?thesis using variant_Affinity by blast
  next
    case 3
    then show ?thesis using variant_Efficiency by blast
  next
    case 4
    then show ?thesis using variant_Natural by blast
  next
    case 5
    then have "variant (calculate rows brief) nm = []"
      unfolding variant_def calculate_splits by simp
    then show ?thesis ..
  qed
qed

text \<open>
  C6, as the code has it. In every record of a split variant (a variant of the batch, or a
  result of \<^verbatim>\<open>generateSingleSplit\<close>, \<^verbatim>\<open>generateConstructorSplit\<close> or
  \<^verbatim>\<open>generateManualSharesSplit\<close>), an unset selection flag comes with share 0 and 0 points.
  The statement is about the variants only: the batch also returns the base snapshot,
  whose records are unselected with share and points \<^verbatim>\<open>null\<close>.
\<close>

theorem unselected_split_records_are_zero:
  "(\<forall>d\<in>set (variant (calculate rows brief) nm).
      \<not> selected d \<longrightarrow> share d = Some 0 \<and> trp d = Some 0)
   \<and> (\<forall>d\<in>set (generateSingleSplit data brief logic applyLimits).
      \<not> selected d \<longrightarrow> share d = Some 0 \<and> trp d = Some 0)
   \<and> (\<forall>d\<in>set (generateConstructorSplit data brief selectedChannelNames logic weights).
      \<not> selected d \<longrightarrow> share d = Some 0 \<and> trp d = Some 0)
   \<and> (\<forall>d\<in>set (generateManualSharesSplit data brief shares).
      \<not> selected d \<longrightarrow> share d = Some 0 \<and> trp d = Some 0)"
proof (intro conjI ballI impI)
  fix d assume d: "d \<in> set (variant (calculate rows brief) nm)" "\<not> selected d"
  from variant_cases [of rows brief nm] d(1)
  obtain lg lim where "d \<in> set (generateSingleSplit (initialData (calculate rows brief)) brief lg lim)"
    by auto
  with d(2) show "share d = Some 0" "trp d = Some 0"
    using optimizeSplit_unselected by (auto simp: generateSingleSplit_def)
next
  fix d assume "d \<in> set (generateSingleSplit data brief logic applyLimits)" "\<not> selected d"
  then show "share d = Some 0" "trp d = Some 0"
    using optimizeSplit_unselected by (auto simp: generateSingleSplit_def)
next
  fix d assume "d \<in> set (generateConstructorSplit data brief selectedChannelNames logic weights)"
    "\<not> selected d"
  then show "share d = Some 0" "trp d = Some 0"
    using optimizeSplit_unselected by (auto simp: generateConstructorSplit_def)
next
  fix d assume d: "d \<in> set (generateManualSharesSplit data brief shares)" "\<not> selected d"
  then obtain x where "d = manual_share (first_region brief) shares x"
    by (auto simp: generateManualSharesSplit_def set_sort_records)
  with d(2) manual_share_unselected show "share d = Some 0" "trp d = Some 0" by blast+
qed

lemma ex_orbital_TCPP:
  "variant (calculate ex_orbital_rows ex_brief) ''Split (TCPP)''
     = [(ex_record ''B - 0'' 1 100 (1 / 2))\<lparr>selected := True, weightedRating := Some 1,
          share := Some (3 / 10), trp := Some 300, comment := Some (OrbitalCorrected 30)\<rparr>,
        (ex_record ''A - 0'' 99 200 1)\<lparr>share := Some 0, trp := Some 0,
          comment := Some ExpensiveIndex\<rparr>]"
  unfolding variant_TCPP ex_orbital_base
  by (simp add: ex_brief_def ex_record_def model_defs double_defs optimize_loop.simps)

text \<open>Witness for C6: the channel cut off as too expensive in the TCPP variant of the batch
  on the two orbital rows.\<close>

theorem unselected_split_records_are_zero_witness:
  "variant (calculate ex_orbital_rows ex_brief) ''Split (TCPP)'' ! 1
     \<in> set (variant (calculate ex_orbital_rows ex_brief) ''Split (TCPP)'')
   \<and> outcome (variant (calculate ex_orbital_rows ex_brief) ''Split (TCPP)'' ! 1)
       = (''A - 0'', False, Some 0, Some 0)"
proof -
  let ?v = "variant (calculate ex_orbital_rows ex_brief) ''Split (TCPP)''"
  have mem: "?v ! 1 \<in> set ?v" unfolding ex_orbital_TCPP by simp
  have unsel: "\<not> selected (?v ! 1)" and ch: "channel (?v ! 1) = ''A - 0''"
    unfolding ex_orbital_TCPP by (simp_all add: ex_record_def)
  from unselected_split_records_are_zero [THEN conjunct1, rule_format, OF mem unsel]
  have "share (?v ! 1) = Some 0 \<and> trp (?v ! 1) = Some 0" .
  with mem unsel ch show ?thesis by (simp add: outcome_def)
qed

text \<open>Counterexample to C6 as stated: the records of \<^verbatim>\<open>initialData\<close> in the result of the
  batch are unselected, and their share and points are \<^verbatim>\<open>null\<close>, not 0.\<close>

theorem base_snapshot_share_counterexample:
  "map outcome (initialData (calculate ex_orbital_rows ex_brief))
     = [(''A - 0'', False, None, None), (''B - 0'', False, None, None)]"
  unfolding ex_orbital_base by (simp add: outcome_def ex_record_def)

subsection \<open>The orbital cap\<close>

text \<open>A property that the step of one region establishes and the steps of the other
  regions keep holds after the whole pass over the regions.\<close>

lemma fold_establish:
  assumes "r \<in> set rs" "\<And>x. P (f r x)" "\<And>r' x. r' \<noteq> r \<Longrightarrow> P x \<Longrightarrow> P (f r' x)"
  shows "P (fold f rs x)"
  using assms(1)
proof (induction rs rule: rev_induct)
  case Nil
  then show ?case by simp
next
  case (snoc a rs)
  show ?case
  proof (cases "a = r")
    case True
    then show ?thesis by (simp add: assms(2))
  next
    case False
    with snoc have "P (fold f rs x)" by simp
    with False show ?thesis by (simp add: assms(3))
  qed
qed

lemma fold_preserve:
  assumes "\<And>r' x. P x \<Longrightarrow> P (f r' x)" "P x"
  shows "P (fold f rs x)"
  using assms(2) by (induction rs arbitrary: x) (simp_all add: assms(1))

lemma orbital_step_unfold:
  "orbital_step brief r X =
     (case orbital_cap brief r of
        None \<Rightarrow> X
      | Some cap \<Rightarrow>
          if cap / 100 < totalOrbitalShare r X
          then redistribute r (totalOrbitalShare r X - cap / 100)
                 (scale_orbital r cap (cap / 100 / totalOrbitalShare r X) X)
          else X)"
  by (simp add: orbital_step_def orbital_cap_def Let_def split: option.splits)

lemma sum_over_cong: "(\<And>d. d \<in> set xs \<Longrightarrow> f d = h d) \<Longrightarrow> sum_over f xs = sum_over h xs"
  by (induction xs) (simp_all add: sum_over_def)

lemma sum_over_times: "sum_over (\<lambda>d. f d * k) xs = sum_over f xs * k"
  by (simp add: sum_over_def sum_list_mult_const)

lemma sum_over_filter_map:
  "(\<And>d. P (g d) = P d) \<Longrightarrow>
     sum_over f (filter P (map g xs)) = sum_over (\<lambda>d. f (g d)) (filter P xs)"
  by (induction xs) (simp_all add: sum_over_def)

lemma sum_over_filter_map_id:
  "(\<And>d. P d \<Longrightarrow> f (g d) = f d) \<Longrightarrow> (\<And>d. P (g d) = P d) \<Longrightarrow>
     sum_over f (filter P (map g xs)) = sum_over f (filter P xs)"
  by (induction xs) (simp_all add: sum_over_def)

lemma scale_orbital_total:
  "totalOrbitalShare r (scale_orbital r cap k X) = totalOrbitalShare r X * k"
proof -
  let ?g = "\<lambda>d. if orbital_in r d
             then d\<lparr>share := Some (share0 d * k), comment := Some (OrbitalCorrected cap)\<rparr> else d"
  have keep: "orbital_in r (?g d) = orbital_in r d" for d
    by (simp add: orbital_in_def is_orbital_def)
  have "sum_over share0 (filter (orbital_in r) (map ?g X))
      = sum_over (\<lambda>d. share0 (?g d)) (filter (orbital_in r) X)"
    by (rule sum_over_filter_map [where P = "orbital_in r" and g = ?g, OF keep])
  also have "\<dots> = sum_over (\<lambda>d. share0 d * k) (filter (orbital_in r) X)"
    by (rule sum_over_cong) (simp add: share0_def or0_def)
  also have "\<dots> = sum_over share0 (filter (orbital_in r) X) * k"
    by (rule sum_over_times)
  finally show ?thesis by (simp only: totalOrbitalShare_def scale_orbital_def)
qed

lemma scale_orbital_network:
  "totalNetworkShare r (scale_orbital r' cap k X) = totalNetworkShare r X"
  unfolding totalNetworkShare_def scale_orbital_def
  by (rule sum_over_filter_map_id [where P = "network_in r"])
     (auto simp: orbital_in_def network_in_def is_orbital_def)

lemma scale_orbital_other:
  "r' \<noteq> r \<Longrightarrow> totalOrbitalShare r (scale_orbital r' cap k X) = totalOrbitalShare r X"
  unfolding totalOrbitalShare_def scale_orbital_def
  by (rule sum_over_filter_map_id [where P = "orbital_in r"])
     (auto simp: orbital_in_def is_orbital_def)

lemma redistribute_orbital:
  "totalOrbitalShare r (redistribute r' x X) = totalOrbitalShare r X"
proof -
  have "totalOrbitalShare r (map (\<lambda>d. if network_in r' d then d\<lparr>share := Some (g d)\<rparr> else d) X)
      = totalOrbitalShare r X" for g
    unfolding totalOrbitalShare_def
    by (rule sum_over_filter_map_id [where P = "orbital_in r"])
       (auto simp: orbital_in_def network_in_def is_orbital_def)
  then show ?thesis by (simp add: redistribute_def Let_def)
qed

lemma redistribute_network:
  assumes "0 < totalNetworkShare r X"
  shows "totalNetworkShare r (redistribute r x X) = totalNetworkShare r X + x"
proof -
  define tn where "tn = totalNetworkShare r X"
  let ?g = "\<lambda>d. if network_in r d
             then d\<lparr>share := Some (share0 d + (share0 d / tn) * x)\<rparr> else d"
  have tn: "0 < tn" using assms by (simp add: tn_def)
  have keep: "network_in r (?g d) = network_in r d" for d
    by (simp add: network_in_def is_orbital_def)
  have "sum_over share0 (filter (network_in r) (map ?g X))
      = sum_over (\<lambda>d. share0 (?g d)) (filter (network_in r) X)"
    by (rule sum_over_filter_map [where P = "network_in r" and g = ?g, OF keep])
  also have "\<dots> = sum_over (\<lambda>d. share0 d * (1 + x / tn)) (filter (network_in r) X)"
    by (rule sum_over_cong) (simp add: share0_def or0_def algebra_simps)
  also have "\<dots> = sum_over share0 (filter (network_in r) X) * (1 + x / tn)"
    by (rule sum_over_times)
  also have "\<dots> = tn * (1 + x / tn)"
    by (simp only: tn_def totalNetworkShare_def)
  also have "\<dots> = tn + x" using tn by (simp add: field_simps)
  finally have "totalNetworkShare r (map ?g X) = tn + x"
    by (simp only: totalNetworkShare_def)
  with tn show ?thesis by (simp add: redistribute_def Let_def tn_def [symmetric])
qed

lemma orbital_step_other:
  "r' \<noteq> r \<Longrightarrow> totalOrbitalShare r (orbital_step brief r' X) = totalOrbitalShare r X"
  by (simp add: orbital_step_unfold redistribute_orbital scale_orbital_other split: option.splits)

lemma orbital_step_bound:
  assumes "orbital_cap brief r = Some cap" "0 \<le> cap"
  shows "totalOrbitalShare r (orbital_step brief r X) \<le> cap / 100"
proof (cases "cap / 100 < totalOrbitalShare r X")
  case True
  with assms(2) have "totalOrbitalShare r X \<noteq> 0" by auto
  with True assms(1) show ?thesis
    by (simp add: orbital_step_unfold redistribute_orbital scale_orbital_total)
next
  case False
  with assms(1) show ?thesis by (simp add: orbital_step_unfold)
qed

lemma finalize_orbital: "totalOrbitalShare r (map finalize X) = totalOrbitalShare r X"
  unfolding totalOrbitalShare_def
  by (rule sum_over_filter_map_id [where P = "orbital_in r"])
     (auto simp: orbital_in_def finalize_def is_orbital_def share0_def)

lemma sum_over_filter_mset:
  assumes "mset xs = mset ys"
  shows "sum_over f (filter P xs) = sum_over f (filter P ys)"
proof -
  have "mset (map f (filter P xs)) = mset (map f (filter P ys))"
    using assms by (metis mset_filter mset_map)
  then have "sum_mset (mset (map f (filter P xs))) = sum_mset (mset (map f (filter P ys)))"
    by (rule arg_cong)
  then show ?thesis unfolding sum_over_def sum_mset_sum_list .
qed

lemma sort_records_orbital: "totalOrbitalShare r (sort_records X) = totalOrbitalShare r X"
  unfolding totalOrbitalShare_def
  by (rule sum_over_filter_mset [where P = "orbital_in r"]) (simp add: sort_records_def)

lemma optimizeSplit_orbital_bound:
  assumes "r \<in> set (regions brief)" "orbital_cap brief r = Some cap" "0 \<le> cap"
  shows "totalOrbitalShare r (optimizeSplit data brief logic True weights) \<le> cap / 100"
proof -
  have "totalOrbitalShare r (fold (orbital_step brief) (regions brief) X) \<le> cap / 100" for X
  proof (rule fold_establish [where P = "\<lambda>Y. totalOrbitalShare r Y \<le> cap / 100", OF assms(1)])
    fix x show "totalOrbitalShare r (orbital_step brief r x) \<le> cap / 100"
      by (rule orbital_step_bound [OF assms(2,3)])
  next
    fix r' x assume "r' \<noteq> r" "totalOrbitalShare r x \<le> cap / 100"
    then show "totalOrbitalShare r (orbital_step brief r' x) \<le> cap / 100"
      by (simp add: orbital_step_other)
  qed
  then show ?thesis
    unfolding optimizeSplit_def optimize_records_def orbital_pass_def sort_records_orbital
      finalize_orbital by simp
qed


lemma redistribute_nth:
  "i < length Y \<Longrightarrow>
   redistribute r x Y ! i
     = (if 0 < totalNetworkShare r Y \<and> network_in r (Y ! i)
        then (Y ! i)\<lparr>share := Some (share0 (Y ! i) + (share0 (Y ! i) / totalNetworkShare r Y) * x)\<rparr>
        else Y ! i)"
  by (simp add: redistribute_def Let_def)

lemma scale_orbital_nth:
  "i < length X \<Longrightarrow>
   scale_orbital r cap k X ! i
     = (if orbital_in r (X ! i)
        then (X ! i)\<lparr>share := Some (share0 (X ! i) * k), comment := Some (OrbitalCorrected cap)\<rparr>
        else X ! i)"
  by (simp add: scale_orbital_def)

lemma orbital_step_nth:
  assumes "orbital_cap brief r = Some cap" "cap / 100 < totalOrbitalShare r X" "i < length X"
  shows "(orbital_in r (X ! i) \<longrightarrow> share (orbital_step brief r X ! i)
            = Some (share0 (X ! i) * (cap / 100 / totalOrbitalShare r X)))
       \<and> (network_in r (X ! i) \<and> 0 < totalNetworkShare r X \<longrightarrow>
            share (orbital_step brief r X ! i)
              = Some (share0 (X ! i) + share0 (X ! i) / totalNetworkShare r X
                        * (totalOrbitalShare r X - cap / 100)))
       \<and> (network_in r (X ! i) \<and> \<not> 0 < totalNetworkShare r X \<longrightarrow>
            orbital_step brief r X ! i = X ! i)
       \<and> (\<not> selected_in r (X ! i) \<longrightarrow> orbital_step brief r X ! i = X ! i)"
proof -
  define k where "k = cap / 100 / totalOrbitalShare r X"
  define x where "x = totalOrbitalShare r X - cap / 100"
  define Y where "Y = scale_orbital r cap k X"
  define tn where "tn = totalNetworkShare r X"
  have step: "orbital_step brief r X = redistribute r x Y"
    using assms(1,2) by (simp add: orbital_step_unfold Y_def k_def x_def)
  have tn: "totalNetworkShare r Y = tn" unfolding Y_def tn_def by (rule scale_orbital_network)
  have len: "i < length Y" using assms(3) by (simp add: Y_def scale_orbital_def)
  have y: "Y ! i = (if orbital_in r (X ! i)
        then (X ! i)\<lparr>share := Some (share0 (X ! i) * k), comment := Some (OrbitalCorrected cap)\<rparr>
        else X ! i)"
    unfolding Y_def by (rule scale_orbital_nth [OF assms(3)])
  have z: "orbital_step brief r X ! i = (if 0 < tn \<and> network_in r (Y ! i)
        then (Y ! i)\<lparr>share := Some (share0 (Y ! i) + (share0 (Y ! i) / tn) * x)\<rparr> else Y ! i)"
    unfolding step redistribute_nth [OF len] tn ..
  have "(orbital_in r (X ! i) \<longrightarrow> share (orbital_step brief r X ! i) = Some (share0 (X ! i) * k))
       \<and> (network_in r (X ! i) \<and> 0 < tn \<longrightarrow>
            share (orbital_step brief r X ! i) = Some (share0 (X ! i) + share0 (X ! i) / tn * x))
       \<and> (network_in r (X ! i) \<and> \<not> 0 < tn \<longrightarrow> orbital_step brief r X ! i = X ! i)
       \<and> (\<not> selected_in r (X ! i) \<longrightarrow> orbital_step brief r X ! i = X ! i)"
    unfolding z y
    by (auto simp: orbital_in_def network_in_def selected_in_def is_orbital_def)
  then show ?thesis unfolding k_def x_def tn_def .
qed

lemma orbital_step_length: "length (orbital_step brief r X) = length X"
  by (simp add: orbital_step_unfold redistribute_def scale_orbital_def Let_def split: option.splits)

lemma orbital_step_totals:
  assumes "orbital_cap brief r = Some cap" "0 \<le> cap" "cap / 100 < totalOrbitalShare r X"
  shows "totalOrbitalShare r (orbital_step brief r X) = cap / 100"
    and "0 < totalNetworkShare r X \<Longrightarrow> totalNetworkShare r (orbital_step brief r X)
          = totalNetworkShare r X + (totalOrbitalShare r X - cap / 100)"
proof -
  from assms(2,3) have "totalOrbitalShare r X \<noteq> 0" by auto
  with assms(1,3) show "totalOrbitalShare r (orbital_step brief r X) = cap / 100"
    by (simp add: orbital_step_unfold redistribute_orbital scale_orbital_total)
  assume "0 < totalNetworkShare r X"
  then have "0 < totalNetworkShare r (scale_orbital r cap (cap / 100 / totalOrbitalShare r X) X)"
    by (simp add: scale_orbital_network)
  from redistribute_network [OF this] assms(1,3)
  show "totalNetworkShare r (orbital_step brief r X)
          = totalNetworkShare r X + (totalOrbitalShare r X - cap / 100)"
    by (simp add: orbital_step_unfold scale_orbital_network)
qed

text \<open>
  C3, as the code has it. With limits enabled, for a region of the brief whose cap is
  configured and not negative, the shares of the selected orbital channels total at most
  the cap after \<^verbatim>\<open>optimizeSplit\<close>. When the orbital total exceeds the cap before the
  region's step, the step multiplies the share of every selected orbital channel by
  cap / total, which brings the orbital total to the cap; if the selected non-orbital
  shares total more than 0, each of them grows by its proportion of the freed share, so
  that their total grows by exactly the freed share; otherwise they are left as they are.
  Records that are not selected in the region are untouched.
\<close>

theorem orbital_cap_enforced_with_limits:
  assumes "r \<in> set (regions brief)" "orbital_cap brief r = Some cap" "0 \<le> cap"
  shows "totalOrbitalShare r (optimizeSplit data brief logic True weights) \<le> cap / 100
    \<and> (cap / 100 < totalOrbitalShare r X \<longrightarrow>
         length (orbital_step brief r X) = length X
       \<and> (\<forall>i<length X.
            (orbital_in r (X ! i) \<longrightarrow> share (orbital_step brief r X ! i)
               = Some (share0 (X ! i) * (cap / 100 / totalOrbitalShare r X)))
          \<and> (network_in r (X ! i) \<and> 0 < totalNetworkShare r X \<longrightarrow>
               share (orbital_step brief r X ! i)
                 = Some (share0 (X ! i) + share0 (X ! i) / totalNetworkShare r X
                           * (totalOrbitalShare r X - cap / 100)))
          \<and> (network_in r (X ! i) \<and> \<not> 0 < totalNetworkShare r X \<longrightarrow>
               orbital_step brief r X ! i = X ! i)
          \<and> (\<not> selected_in r (X ! i) \<longrightarrow> orbital_step brief r X ! i = X ! i))
       \<and> totalOrbitalShare r (orbital_step brief r X) = cap / 100
       \<and> (0 < totalNetworkShare r X \<longrightarrow>
            totalNetworkShare r (orbital_step brief r X)
              = totalNetworkShare r X + (totalOrbitalShare r X - cap / 100)))"
proof (intro conjI impI allI)
  show "totalOrbitalShare r (optimizeSplit data brief logic True weights) \<le> cap / 100"
    by (rule optimizeSplit_orbital_bound [OF assms])
next
  assume gt: "cap / 100 < totalOrbitalShare r X"
  show "length (orbital_step brief r X) = length X" by (rule orbital_step_length)
  show "totalOrbitalShare r (orbital_step brief r X) = cap / 100"
    by (rule orbital_step_totals(1) [OF assms(2,3) gt])
  show "totalNetworkShare r (orbital_step brief r X)
          = totalNetworkShare r X + (totalOrbitalShare r X - cap / 100)"
    if "0 < totalNetworkShare r X"
    by (rule orbital_step_totals(2) [OF assms(2,3) gt that])
  fix i assume i: "i < length X"
  note nth = orbital_step_nth [OF assms(2) gt i]
  show "share (orbital_step brief r X ! i)
      = Some (share0 (X ! i) * (cap / 100 / totalOrbitalShare r X))" if "orbital_in r (X ! i)"
    using nth that by blast
  show "share (orbital_step brief r X ! i)
      = Some (share0 (X ! i) + share0 (X ! i) / totalNetworkShare r X
                * (totalOrbitalShare r X - cap / 100))"
    if "network_in r (X ! i) \<and> 0 < totalNetworkShare r X"
    using nth that by blast
  show "orbital_step brief r X ! i = X ! i"
    if "network_in r (X ! i) \<and> \<not> 0 < totalNetworkShare r X"
    using nth that by blast
  show "orbital_step brief r X ! i = X ! i" if "\<not> selected_in r (X ! i)"
    using nth that by blast
qed


lemma ex_mixed_loop:
  "loop_result ex_brief Affinity True None ex_mixed
     = [(ex_record ''A - 0'' 60 100 1)\<lparr>selected := True, weightedRating := Some 60,
          share := Some (3 / 5)\<rparr>,
        (ex_record ''B'' 40 100 1)\<lparr>selected := True, weightedRating := Some 40,
          share := Some (2 / 5)\<rparr>]"
  by (simp add: ex_mixed_def ex_brief_def ex_record_def model_defs optimize_loop.simps)

text \<open>Witness for C3: an orbital channel with share 3/5 and a network channel with share
  2/5 under a cap of 30 percent end with shares 3/10 and 7/10.\<close>

theorem orbital_cap_enforced_with_limits_witness:
  "''R'' \<in> set (regions ex_brief) \<and> orbital_cap ex_brief ''R'' = Some 30 \<and> (0::real) \<le> 30
   \<and> totalOrbitalShare ''R'' (optimizeSplit ex_mixed ex_brief Affinity True None) \<le> 30 / 100
   \<and> map outcome (optimizeSplit ex_mixed ex_brief Affinity True None)
       = [(''B'', True, Some (7 / 10), Some 700), (''A - 0'', True, Some (3 / 10), Some 300)]
   \<and> totalOrbitalShare ''R'' (loop_result ex_brief Affinity True None ex_mixed) = 3 / 5
   \<and> totalNetworkShare ''R'' (loop_result ex_brief Affinity True None ex_mixed) = 2 / 5
   \<and> totalOrbitalShare ''R''
         (orbital_step ex_brief ''R'' (loop_result ex_brief Affinity True None ex_mixed)) = 30 / 100
   \<and> totalNetworkShare ''R''
         (orbital_step ex_brief ''R'' (loop_result ex_brief Affinity True None ex_mixed))
       = 2 / 5 + (3 / 5 - 30 / 100)"
proof -
  let ?X = "loop_result ex_brief Affinity True None ex_mixed"
  have r: "''R'' \<in> set (regions ex_brief)" by (simp add: regions_def ex_brief_def)
  have c: "orbital_cap ex_brief ''R'' = Some 30"
    by (simp add: orbital_cap_def regionBrief_def ex_brief_def)
  have tot: "totalOrbitalShare ''R'' ?X = 3 / 5" and net: "totalNetworkShare ''R'' ?X = 2 / 5"
    unfolding ex_mixed_loop by (simp_all add: ex_record_def model_defs)
  note inst = orbital_cap_enforced_with_limits [OF r c, of ex_mixed Affinity None ?X]
  have gt: "(30::real) / 100 < totalOrbitalShare ''R'' ?X" unfolding tot by simp
  have pos: "0 < totalNetworkShare ''R'' ?X" unfolding net by simp
  have bound: "totalOrbitalShare ''R'' (optimizeSplit ex_mixed ex_brief Affinity True None) \<le> 30 / 100"
    using inst by simp
  from inst gt have o: "totalOrbitalShare ''R'' (orbital_step ex_brief ''R'' ?X) = 30 / 100"
    by simp
  from inst gt pos have n: "totalNetworkShare ''R'' (orbital_step ex_brief ''R'' ?X)
      = totalNetworkShare ''R'' ?X + (totalOrbitalShare ''R'' ?X - 30 / 100)"
    by simp
  have out: "map outcome (optimizeSplit ex_mixed ex_brief Affinity True None)
       = [(''B'', True, Some (7 / 10), Some 700), (''A - 0'', True, Some (3 / 10), Some 300)]"
    by (simp add: ex_mixed_def ex_brief_def ex_record_def model_defs optimize_loop.simps)
  from r c bound out tot net o n show ?thesis by simp
qed

text \<open>Counterexample to C3 as stated: the Natural variant of the batch runs with limits
  disabled, so under a cap of 30 percent the two selected orbital channels keep shares
  that total 1.\<close>

theorem orbital_cap_natural_counterexample:
  "orbital_cap ex_brief ''R'' = Some 30
   \<and> map outcome (variant (calculate ex_orbital_rows ex_brief) ''Split (Natural)'')
       = [(''A - 0'', True, Some (99 / 100), Some 990), (''B - 0'', True, Some (1 / 100), Some 10)]
   \<and> totalOrbitalShare ''R'' (variant (calculate ex_orbital_rows ex_brief) ''Split (Natural)'') = 1"
  unfolding variant_Natural ex_orbital_base
  by (simp add: orbital_cap_def ex_brief_def ex_record_def model_defs optimize_loop.simps)

subsection \<open>The sum of the selected shares of a region\<close>

lemma deselect_low_id: "\<not> below_floor brief d \<Longrightarrow> deselect_low brief d = d"
  by (simp add: deselect_low_def split: option.splits)

lemma pass_data_unchanged:
  assumes "\<not> changesMade brief logic applyLimits weights data"
  shows "pass_data brief logic applyLimits weights data = shares_pass brief logic weights data"
proof (cases applyLimits)
  case True
  with assms have "\<forall>d\<in>set (shares_pass brief logic weights data). \<not> below_floor brief d"
    by (simp add: changesMade_def list_ex_iff)
  then have "map (deselect_low brief) (shares_pass brief logic weights data)
      = shares_pass brief logic weights data"
    by (simp add: deselect_low_id map_idI)
  with True show ?thesis by (simp add: pass_data_def)
next
  case False
  then show ?thesis by (simp add: pass_data_def)
qed

lemma optimize_loop_converged:
  "snd (optimize_loop brief logic applyLimits weights iterationCount data) \<le> 20 \<Longrightarrow>
   \<exists>P. fst (optimize_loop brief logic applyLimits weights iterationCount data)
         = shares_pass brief logic weights P"
proof (induction brief logic applyLimits weights iterationCount data rule: optimize_loop.induct)
  case (1 brief logic applyLimits weights iterationCount data)
  have lt: "\<not> 20 < iterationCount + 1"
  proof
    assume "20 < iterationCount + 1"
    then have "snd (optimize_loop brief logic applyLimits weights iterationCount data)
        = iterationCount + 1"
      by (subst optimize_loop.simps) simp
    with "1.prems" \<open>20 < iterationCount + 1\<close> show False by simp
  qed
  show ?case
  proof (cases "changesMade brief logic applyLimits weights data")
    case True
    with lt have eq: "optimize_loop brief logic applyLimits weights iterationCount data
        = optimize_loop brief logic applyLimits weights (iterationCount + 1)
            (pass_data brief logic applyLimits weights data)"
      by (subst optimize_loop.simps) simp
    from "1.IH" [OF lt True] "1.prems" show ?thesis unfolding eq by simp
  next
    case False
    with lt have "fst (optimize_loop brief logic applyLimits weights iterationCount data)
        = pass_data brief logic applyLimits weights data"
      by (subst optimize_loop.simps) simp
    with pass_data_unchanged [OF False] show ?thesis by auto
  qed
qed

text \<open>The step of a region leaves the selected records of every other region as they are.\<close>

lemma filter_map_id:
  "(\<And>d. P d \<Longrightarrow> g d = d) \<Longrightarrow> (\<And>d. P (g d) = P d) \<Longrightarrow> filter P (map g xs) = filter P xs"
  by (induction xs) simp_all

lemma set_ratings_frame:
  "r' \<noteq> r \<Longrightarrow> filter (selected_in r) (set_ratings logic weights r' x) = filter (selected_in r) x"
  unfolding set_ratings_def
  by (rule filter_map_id [where P = "selected_in r"]) (auto simp: selected_in_def)

lemma set_shares_frame:
  "r' \<noteq> r \<Longrightarrow> filter (selected_in r) (set_shares r' x) = filter (selected_in r) x"
proof -
  assume ne: "r' \<noteq> r"
  have "filter (selected_in r) (map (\<lambda>d. if selected_in r' d then d\<lparr>share := Some (g d)\<rparr>
          else if region d = r' then d\<lparr>share := Some 0\<rparr> else d) x) = filter (selected_in r) x" for g
    by (rule filter_map_id [where P = "selected_in r"]) (use ne in \<open>auto simp: selected_in_def\<close>)
  then show ?thesis by (simp add: set_shares_def Let_def)
qed

lemma region_step_frame:
  "r' \<noteq> r \<Longrightarrow> filter (selected_in r) (region_step logic weights r' x) = filter (selected_in r) x"
  by (simp add: region_step_def set_shares_frame set_ratings_frame)

text \<open>After the step of a region, a positive total weighted rating means that the shares
  of its selected records are the ratings divided by their total.\<close>

lemma sum_over_divide: "sum_over (\<lambda>d. f d / c) xs = sum_over f xs / c"
  by (induction xs) (simp_all add: sum_over_def add_divide_distrib)

lemma set_shares_selected:
  "filter (selected_in r) (set_shares r z)
     = (if 0 < totalWeightedRating r z
        then map (\<lambda>d. d\<lparr>share := Some (or0 (weightedRating d) / totalWeightedRating r z)\<rparr>)
               (filter (selected_in r) z)
        else filter (selected_in r) z)"
proof -
  have "filter (selected_in r) (map (\<lambda>d. if selected_in r d then d\<lparr>share := Some (g d)\<rparr>
          else if region d = r then d\<lparr>share := Some 0\<rparr> else d) z)
      = map (\<lambda>d. d\<lparr>share := Some (g d)\<rparr>) (filter (selected_in r) z)" for g
    by (induction z) (simp_all add: selected_in_def)
  then show ?thesis by (simp add: set_shares_def Let_def)
qed

lemma set_shares_established:
  "0 < totalWeightedRating r (set_shares r z) \<Longrightarrow> selected_share_sum r (set_shares r z) = 1"
proof -
  let ?tw = "totalWeightedRating r z"
  assume pos: "0 < totalWeightedRating r (set_shares r z)"
  have same: "totalWeightedRating r (set_shares r z) = ?tw"
    by (simp add: totalWeightedRating_def [of r "set_shares r z"] set_shares_selected
          sum_over_def comp_def)
       (simp add: totalWeightedRating_def sum_over_def)
  with pos have tw: "0 < ?tw" by simp
  have "selected_share_sum r (set_shares r z)
      = sum_over (\<lambda>d. or0 (weightedRating d) / ?tw) (filter (selected_in r) z)"
    using tw
    by (simp add: selected_share_sum_def set_shares_selected sum_over_def comp_def share0_def or0_def)
  also have "\<dots> = ?tw / ?tw"
    by (simp only: sum_over_divide totalWeightedRating_def)
  finally show ?thesis using tw by simp
qed


lemma region_step_established:
  "0 < totalWeightedRating r (region_step logic weights r x) \<Longrightarrow>
     selected_share_sum r (region_step logic weights r x) = 1"
proof (cases "filter (selected_in r) x = []")
  case True
  assume "0 < totalWeightedRating r (region_step logic weights r x)"
  with True show ?thesis by (simp add: region_step_def totalWeightedRating_def sum_over_def)
next
  case False
  assume "0 < totalWeightedRating r (region_step logic weights r x)"
  with False show ?thesis by (simp add: region_step_def set_shares_established)
qed

lemma shares_pass_established:
  assumes "r \<in> set (regions brief)"
    and "0 < totalWeightedRating r (shares_pass brief logic weights P)"
  shows "selected_share_sum r (shares_pass brief logic weights P) = 1"
proof -
  have "0 < totalWeightedRating r (fold (region_step logic weights) (regions brief) P)
      \<longrightarrow> selected_share_sum r (fold (region_step logic weights) (regions brief) P) = 1"
  proof (rule fold_establish [where P = "\<lambda>y. 0 < totalWeightedRating r y \<longrightarrow> selected_share_sum r y = 1",
        OF assms(1)])
    fix x show "0 < totalWeightedRating r (region_step logic weights r x)
        \<longrightarrow> selected_share_sum r (region_step logic weights r x) = 1"
      using region_step_established by blast
  next
    fix r' x assume "r' \<noteq> r" "0 < totalWeightedRating r x \<longrightarrow> selected_share_sum r x = 1"
    then show "0 < totalWeightedRating r (region_step logic weights r' x)
        \<longrightarrow> selected_share_sum r (region_step logic weights r' x) = 1"
      by (simp add: totalWeightedRating_def selected_share_sum_def region_step_frame)
  qed
  with assms(2) show ?thesis by (simp add: shares_pass_def)
qed

text \<open>The orbital pass moves share between the selected records of a region.\<close>

lemma selected_share_sum_split:
  "selected_share_sum r y = totalOrbitalShare r y + totalNetworkShare r y"
  by (induction y)
     (auto simp: selected_share_sum_def totalOrbitalShare_def totalNetworkShare_def sum_over_def
        selected_in_def orbital_in_def network_in_def)

lemma redistribute_other_network:
  "r' \<noteq> r \<Longrightarrow> totalNetworkShare r (redistribute r' x X) = totalNetworkShare r X"
proof -
  assume ne: "r' \<noteq> r"
  have "totalNetworkShare r (map (\<lambda>d. if network_in r' d then d\<lparr>share := Some (g d)\<rparr> else d) X)
      = totalNetworkShare r X" for g
    unfolding totalNetworkShare_def
    by (rule sum_over_filter_map_id [where P = "network_in r"])
       (use ne in \<open>auto simp: network_in_def is_orbital_def\<close>)
  then show ?thesis by (simp add: redistribute_def Let_def)
qed

lemma orbital_step_other_network:
  "r' \<noteq> r \<Longrightarrow> totalNetworkShare r (orbital_step brief r' X) = totalNetworkShare r X"
  by (simp add: orbital_step_unfold redistribute_other_network scale_orbital_network
        split: option.splits)

lemma orbital_step_keeps_sum:
  assumes "selected_share_sum r X = s \<and> cap_redistributes brief r X"
  shows "selected_share_sum r (orbital_step brief r' X) = s
       \<and> cap_redistributes brief r (orbital_step brief r' X)"
proof (cases "r' = r")
  case False
  then have "totalOrbitalShare r (orbital_step brief r' X) = totalOrbitalShare r X"
    "totalNetworkShare r (orbital_step brief r' X) = totalNetworkShare r X"
    by (simp_all add: orbital_step_other orbital_step_other_network)
  with assms show ?thesis
    by (simp add: selected_share_sum_split cap_redistributes_def split: option.splits)
next
  case True
  show ?thesis
  proof (cases "orbital_cap brief r")
    case None
    with assms True show ?thesis by (simp add: orbital_step_unfold)
  next
    case (Some cap)
    show ?thesis
    proof (cases "cap / 100 < totalOrbitalShare r X")
      case False
      with assms True Some show ?thesis by (simp add: orbital_step_unfold)
    next
      case gt: True
      with assms Some have tn: "0 < totalNetworkShare r X" and cap: "0 \<le> cap"
        by (auto simp: cap_redistributes_def)
      from orbital_step_totals [OF Some cap gt] tn
      have "totalOrbitalShare r (orbital_step brief r X) = cap / 100"
        "totalNetworkShare r (orbital_step brief r X)
          = totalNetworkShare r X + (totalOrbitalShare r X - cap / 100)"
        by simp_all
      with assms True Some show ?thesis
        by (simp add: selected_share_sum_split cap_redistributes_def split: option.splits)
    qed
  qed
qed

lemma orbital_pass_keeps_sum:
  assumes "selected_share_sum r X = s" "applyLimits \<longrightarrow> cap_redistributes brief r X"
  shows "selected_share_sum r (orbital_pass brief applyLimits X) = s"
proof (cases applyLimits)
  case False
  with assms(1) show ?thesis by (simp add: orbital_pass_def)
next
  case True
  with assms have start: "selected_share_sum r X = s \<and> cap_redistributes brief r X" by simp
  have "selected_share_sum r (fold (orbital_step brief) (regions brief) X) = s
      \<and> cap_redistributes brief r (fold (orbital_step brief) (regions brief) X)"
    by (rule fold_preserve [where P = "\<lambda>y. selected_share_sum r y = s \<and> cap_redistributes brief r y",
          OF orbital_step_keeps_sum start])
  with True show ?thesis by (simp add: orbital_pass_def)
qed

lemma finalize_sum: "selected_share_sum r (map finalize X) = selected_share_sum r X"
  unfolding selected_share_sum_def
  by (rule sum_over_filter_map_id [where P = "selected_in r"])
     (auto simp: selected_in_def finalize_def share0_def)

lemma sort_records_sum: "selected_share_sum r (sort_records X) = selected_share_sum r X"
  unfolding selected_share_sum_def
  by (rule sum_over_filter_mset [where P = "selected_in r"]) (simp add: sort_records_def)

lemma optimizeSplit_sum:
  "selected_share_sum r (optimizeSplit data brief logic applyLimits weights)
     = selected_share_sum r (orbital_pass brief applyLimits
         (loop_result brief logic applyLimits weights data))"
  by (simp add: optimizeSplit_def optimize_records_def sort_records_sum finalize_sum)

text \<open>
  C1, as the code has it. After \<^verbatim>\<open>optimizeSplit\<close>, the shares of the selected records of
  a region sum to 0 when the region has no selected record. For a region of the brief
  they sum to exactly 1 when
  \<^item> the loop ended on a pass that deselected nothing (its counter is at most 20: it did
    not leave through \<^verbatim>\<open>break\<close>),
  \<^item> the weighted ratings of the selected records of the region total more than 0, and
  \<^item> with limits enabled, the orbital step leaves the sum alone (\<open>cap_redistributes\<close>).
  The sum is exact in the model, whose numbers are reals; the program reaches it up to
  rounding.
\<close>

theorem selected_shares_sum_to_one:
  "(filter (selected_in r) (optimizeSplit data brief logic applyLimits weights) = [] \<longrightarrow>
      selected_share_sum r (optimizeSplit data brief logic applyLimits weights) = 0)
   \<and> (r \<in> set (regions brief)
        \<and> snd (optimize_loop brief logic applyLimits weights 0 data) \<le> 20
        \<and> 0 < totalWeightedRating r (loop_result brief logic applyLimits weights data)
        \<and> (applyLimits \<longrightarrow>
              cap_redistributes brief r (loop_result brief logic applyLimits weights data)) \<longrightarrow>
      selected_share_sum r (optimizeSplit data brief logic applyLimits weights) = 1)"
proof (intro conjI impI)
  assume "filter (selected_in r) (optimizeSplit data brief logic applyLimits weights) = []"
  then show "selected_share_sum r (optimizeSplit data brief logic applyLimits weights) = 0"
    by (simp add: selected_share_sum_def sum_over_def)
next
  let ?L = "loop_result brief logic applyLimits weights data"
  assume a: "r \<in> set (regions brief)
        \<and> snd (optimize_loop brief logic applyLimits weights 0 data) \<le> 20
        \<and> 0 < totalWeightedRating r ?L
        \<and> (applyLimits \<longrightarrow> cap_redistributes brief r ?L)"
  then obtain P where "?L = shares_pass brief logic weights P"
    using optimize_loop_converged [of brief logic applyLimits weights 0 data]
    by (auto simp: loop_result_def)
  with a shares_pass_established [of r brief logic weights P]
  have "selected_share_sum r ?L = 1" by simp
  with a have "selected_share_sum r (orbital_pass brief applyLimits ?L) = 1"
    by (intro orbital_pass_keeps_sum) simp_all
  then show "selected_share_sum r (optimizeSplit data brief logic applyLimits weights) = 1"
    by (simp only: optimizeSplit_sum)
qed


lemma ex_mixed_counter: "snd (optimize_loop ex_brief Affinity True None 0 ex_mixed) = 1"
  by (simp add: ex_mixed_def ex_brief_def ex_record_def model_defs optimize_loop.simps)

text \<open>Witness for C1: an orbital channel with share 3/5 and a network channel with share
  2/5 under a cap of 30 percent; the loop ends after one pass and the freed 3/10 goes to
  the network channel. Region \<open>S\<close> has no record.\<close>

theorem selected_shares_sum_to_one_witness:
  "''R'' \<in> set (regions ex_brief)
   \<and> snd (optimize_loop ex_brief Affinity True None 0 ex_mixed) = 1
   \<and> totalWeightedRating ''R'' (loop_result ex_brief Affinity True None ex_mixed) = 100
   \<and> cap_redistributes ex_brief ''R'' (loop_result ex_brief Affinity True None ex_mixed)
   \<and> selected_share_sum ''R'' (optimizeSplit ex_mixed ex_brief Affinity True None) = 1
   \<and> filter (selected_in ''S'') (optimizeSplit ex_mixed ex_brief Affinity True None) = []
   \<and> selected_share_sum ''S'' (optimizeSplit ex_mixed ex_brief Affinity True None) = 0"
proof -
  let ?L = "loop_result ex_brief Affinity True None ex_mixed"
  let ?res = "optimizeSplit ex_mixed ex_brief Affinity True None"
  have r: "''R'' \<in> set (regions ex_brief)" by (simp add: regions_def ex_brief_def)
  have tw: "totalWeightedRating ''R'' ?L = 100"
    unfolding ex_mixed_loop by (simp add: ex_record_def model_defs)
  have cr: "cap_redistributes ex_brief ''R'' ?L"
    unfolding ex_mixed_loop
    by (simp add: cap_redistributes_def orbital_cap_def ex_brief_def ex_record_def model_defs)
  have none: "filter (selected_in ''S'') ?res = []"
    by (simp add: ex_mixed_def ex_brief_def ex_record_def model_defs optimize_loop.simps)
  have one: "selected_share_sum ''R'' ?res = 1"
    using selected_shares_sum_to_one [of "''R''" ex_mixed ex_brief Affinity True None]
      r ex_mixed_counter tw cr by simp
  have zero: "selected_share_sum ''S'' ?res = 0"
    using selected_shares_sum_to_one [of "''S''" ex_mixed ex_brief Affinity True None] none
    by blast
  from r ex_mixed_counter tw cr one none zero show ?thesis by blast
qed

text \<open>Counterexample to C1 as stated: in the TCPP variant of the batch on two orbital
  channels under a cap of 30 percent, the channel that survives the cutoff gets share 1,
  the orbital step cuts it to 3/10, and no selected non-orbital channel is there to take
  the freed share: the selected shares of the region sum to 3/10.\<close>

theorem selected_shares_sum_counterexample:
  "map outcome (variant (calculate ex_orbital_rows ex_brief) ''Split (TCPP)'')
     = [(''B - 0'', True, Some (3 / 10), Some 300), (''A - 0'', False, Some 0, Some 0)]
   \<and> selected_share_sum ''R'' (variant (calculate ex_orbital_rows ex_brief) ''Split (TCPP)'') = 3 / 10
   \<and> \<not> (selected_share_sum ''R'' (variant (calculate ex_orbital_rows ex_brief) ''Split (TCPP)'') = 0
        \<or> \<bar>selected_share_sum ''R'' (variant (calculate ex_orbital_rows ex_brief) ''Split (TCPP)'') - 1\<bar>
            \<le> 1 / 10 ^ 9)"
  unfolding ex_orbital_TCPP by (simp add: ex_record_def model_defs)

subsection \<open>The cutoff\<close>

text \<open>A stable sort commutes with a map that keeps the keys.\<close>

lemma insort_key_map: "insort_key f (g x) (map g ys) = map g (insort_key (\<lambda>y. f (g y)) x ys)"
  by (induction ys) simp_all

lemma sort_key_map: "sort_key f (map g xs) = map g (sort_key (\<lambda>y. f (g y)) xs)"
  by (induction xs) (simp_all add: insort_key_map)

lemma filter_map_keep: "(\<And>d. P (g d) = P d) \<Longrightarrow> filter P (map g xs) = map g (filter P xs)"
  by (induction xs) simp_all

lemma slice0_map: "slice0 (map g xs) k = map g (slice0 xs k)"
  by (cases k) (simp_all add: take_map Let_def)

lemma cutoff_record_keeps [simp]:
  "region (cutoff_record r ex d) = region d" "indexTcpp (cutoff_record r ex d) = indexTcpp d"
  "channel (cutoff_record r ex d) = channel d"
  by (simp_all add: cutoff_record_def)

lemma cutoff_step_map:
  "cutoff_step brief r data
     = map (\<lambda>d. if filter (has_index_in r) data = [] then d
                 else cutoff_record r (channelsToExclude brief r data) d) data"
  by (simp add: cutoff_step_def)

lemma indexed_cong:
  assumes "\<And>d. region (g d) = region d" "\<And>d. indexTcpp (g d) = indexTcpp d"
  shows "filter (has_index_in r) (map g xs) = map g (filter (has_index_in r) xs)"
  by (rule filter_map_keep [where P = "has_index_in r"]) (simp add: has_index_in_def assms)

lemma channelsToExclude_cong:
  assumes "\<And>d. region (g d) = region d" "\<And>d. indexTcpp (g d) = indexTcpp d"
    "\<And>d. channel (g d) = channel d"
  shows "channelsToExclude brief r (map g xs) = channelsToExclude brief r xs"
  by (simp add: channelsToExclude_def ranked_def channelsToCut_def indexed_cong [OF assms(1,2)]
        sort_key_map slice0_map assms)

lemma cutoff_step_keeps:
  "filter (has_index_in r) (cutoff_step brief r' data) = [] \<longleftrightarrow> filter (has_index_in r) data = []"
  "channelsToExclude brief r (cutoff_step brief r' data) = channelsToExclude brief r data"
  unfolding cutoff_step_map
  by (simp_all add: indexed_cong channelsToExclude_cong)



lemma cutoff_pass_map:
  "fold (cutoff_step brief) rs data = map (\<lambda>d. fold (cutoff_effect brief data) rs d) data"
proof (induction rs arbitrary: data)
  case Nil
  then show ?case by simp
next
  case (Cons r rs)
  let ?data' = "cutoff_step brief r data"
  have same: "cutoff_effect brief ?data' = cutoff_effect brief data"
    by (simp add: cutoff_effect_def fun_eq_iff cutoff_step_keeps)
  have "fold (cutoff_step brief) (r # rs) data = fold (cutoff_step brief) rs ?data'" by simp
  also have "\<dots> = map (\<lambda>d. fold (cutoff_effect brief ?data') rs d) ?data'" by (rule Cons.IH)
  also have "\<dots> = map (\<lambda>d. fold (cutoff_effect brief data) (r # rs) d) data"
    unfolding same by (simp add: cutoff_step_map cutoff_effect_def)
  finally show ?case .
qed

lemma cutoff_effect_region [simp]: "region (cutoff_effect brief data r' d) = region d"
  by (simp add: cutoff_effect_def)

lemma cutoff_effect_other: "region d \<noteq> r' \<Longrightarrow> cutoff_effect brief data r' d = d"
  by (simp add: cutoff_effect_def cutoff_record_def)

lemma cutoff_effect_idem:
  "cutoff_effect brief data r (cutoff_effect brief data r d) = cutoff_effect brief data r d"
  by (simp add: cutoff_effect_def cutoff_record_def)

lemma fold_cutoff_effect:
  "region d = r \<Longrightarrow> r \<in> set rs \<Longrightarrow>
   fold (cutoff_effect brief data) rs d = cutoff_effect brief data r d"
proof (induction rs arbitrary: d rule: rev_induct)
  case Nil
  then show ?case by simp
next
  case (snoc a rs)
  have reg: "region (fold (cutoff_effect brief data) rs d) = region d" for rs
    by (induction rs arbitrary: d) simp_all
  show ?case
  proof (cases "r \<in> set rs")
    case True
    from snoc.IH [OF snoc.prems(1) True] show ?thesis
      by (cases "a = r") (simp_all add: cutoff_effect_idem cutoff_effect_other snoc.prems(1))
  next
    case False
    with snoc.prems(2) have a: "a = r" by simp
    have "fold (cutoff_effect brief data) rs d = d"
      using False snoc.prems(1)
    proof (induction rs arbitrary: d)
      case Nil
      then show ?case by simp
    next
      case (Cons b bs)
      then have "cutoff_effect brief data b d = d" by (simp add: cutoff_effect_other)
      with Cons show ?case by simp
    qed
    with a show ?thesis by simp
  qed
qed

lemma cutoff_pass_nth:
  assumes "r \<in> set rs" "i < length data" "region (data ! i) = r"
    "filter (has_index_in r) data \<noteq> []"
  shows "fold (cutoff_step brief) rs data ! i
     = cutoff_record r (channelsToExclude brief r data) (data ! i)"
  using assms by (simp add: cutoff_pass_map fold_cutoff_effect cutoff_effect_def)


lemma cutoff_pass_length: "length (fold (cutoff_step brief) rs data) = length data"
  by (simp add: cutoff_pass_map)


text \<open>Rounding keeps the sign: the count is not negative when the cutoff is not.\<close>

lemma pow2_positive: "0 < pow2 e"
  by (simp add: pow2_def)






text \<open>The rounding model against IEEE 754: the exponent is the binade of its argument,
  the rounded value lies within half a unit in the last place, and a few doubles, with
  ties, the largest finite double, the overflow threshold and subnormal values among
  them.\<close>

lemma pow2_add1: "pow2 (e + 1) = 2 * pow2 e"
proof (cases "0 \<le> e")
  case True
  then have "nat (e + 1) = Suc (nat e)" by simp
  with True show ?thesis by (simp add: pow2_def)
next
  case False
  then have "nat (- e) = Suc (nat (- (e + 1)))" by simp
  with False show ?thesis by (simp add: pow2_def)
qed

lemma pow2_0: "pow2 0 = 1"
  by (simp add: pow2_def)

lemma pow2_diff1: "pow2 (e - 1) = pow2 e / 2"
  using pow2_add1 [of "e - 1"] by simp

lemma exponent_up_spec:
  "1 \<le> x \<Longrightarrow> e \<le> 1024 \<Longrightarrow>
   e \<le> exponent_up x e \<and> exponent_up x e \<le> 1024
   \<and> pow2 (exponent_up x e) \<le> x * pow2 e
   \<and> (x * pow2 e < pow2 (exponent_up x e + 1) \<or> exponent_up x e = 1024)"
proof (induction x e rule: exponent_up.induct)
  case (1 x e)
  show ?case
  proof (cases "2 \<le> x \<and> e < 1024")
    case True
    then have eq: "exponent_up x e = exponent_up (x / 2) (e + 1)"
      by (subst exponent_up.simps) simp
    from True have "1 \<le> x / 2" "e + 1 \<le> 1024" by simp_all
    from "1.IH" [OF True this] show ?thesis
      unfolding eq by (simp add: pow2_add1)
  next
    case False
    then have eq: "exponent_up x e = e" by (subst exponent_up.simps) auto
    from False "1.prems" have "x < 2 \<or> e = 1024" by auto
    with "1.prems" show ?thesis
      unfolding eq using pow2_positive [of e] by (auto simp: pow2_add1)
  qed
qed

lemma exponent_down_spec:
  "0 < x \<Longrightarrow> x < 2 \<Longrightarrow> - 1022 \<le> e \<Longrightarrow>
   exponent_down x e \<le> e \<and> - 1022 \<le> exponent_down x e
   \<and> x * pow2 e < pow2 (exponent_down x e + 1)
   \<and> (pow2 (exponent_down x e) \<le> x * pow2 e \<or> exponent_down x e = - 1022)"
proof (induction x e rule: exponent_down.induct)
  case (1 x e)
  show ?case
  proof (cases "x < 1 \<and> - 1022 < e")
    case True
    then have eq: "exponent_down x e = exponent_down (x * 2) (e - 1)"
      by (subst exponent_down.simps) simp
    from True "1.prems" have "0 < x * 2" "x * 2 < 2" "- 1022 \<le> e - 1" by simp_all
    from "1.IH" [OF True this] show ?thesis
      unfolding eq by (simp add: pow2_diff1)
  next
    case False
    then have eq: "exponent_down x e = e" by (subst exponent_down.simps) auto
    from False "1.prems" have "1 \<le> x \<or> e = - 1022" by auto
    with "1.prems" show ?thesis
      unfolding eq using pow2_positive [of e] by (auto simp: pow2_add1)
  qed
qed

text \<open>The exponent of a positive real: within the range of a double, and the binade
  of \<open>x\<close> unless \<open>x\<close> lies below the least or above the greatest binade.\<close>

lemma exponent_spec:
  assumes "0 < x"
  shows "- 1022 \<le> exponent x \<and> exponent x \<le> 1024
    \<and> (pow2 (exponent x) \<le> x \<or> exponent x = - 1022)
    \<and> (x < pow2 (exponent x + 1) \<or> exponent x = 1024)"
proof (cases "1 \<le> x")
  case True
  from exponent_up_spec [OF True, of 0] True show ?thesis
    by (simp add: exponent_def pow2_0)
next
  case False
  with assms have "x < 2" by simp
  from exponent_down_spec [OF assms this, of 0] False show ?thesis
    by (simp add: exponent_def pow2_0)
qed

lemma round_half_even_error: "\<bar>real_of_int (round_half_even y) - y\<bar> \<le> 1 / 2"
  by (simp add: round_half_even_def Let_def)

text \<open>\<open>nearest x\<close> is a multiple of the unit in the last place and lies within half a unit
  of \<open>x\<close>.\<close>

lemma nearest_error:
  "\<bar>nearest x - x\<bar> \<le> pow2 (exponent x - 52) / 2"
proof (cases "x = 0")
  case True
  then show ?thesis using pow2_positive [of "exponent 0 - 52"] by (simp add: nearest_def)
next
  case False
  let ?q = "pow2 (exponent x - 52)"
  have q: "0 < ?q" by (rule pow2_positive)
  have "nearest x - x = (real_of_int (round_half_even (x / ?q)) - x / ?q) * ?q"
    using False q by (simp add: nearest_def Let_def algebra_simps)
  then have "\<bar>nearest x - x\<bar> = \<bar>real_of_int (round_half_even (x / ?q)) - x / ?q\<bar> * ?q"
    using q by (simp add: abs_mult)
  also have "\<dots> \<le> 1 / 2 * ?q"
    using round_half_even_error [of "x / ?q"] q by (intro mult_right_mono) simp_all
  finally show ?thesis by simp
qed

text \<open>Values of the rounding and of the cutoff count, as the program computes them.\<close>

lemma round_double_values:
  "round_double (1 / 10) = Finite (3602879701896397 / 2 ^ 55)"
  "round_double (- 1 / 3) = Finite (- 6004799503160661 / 2 ^ 54)"
  "round_double (28 / 100) = Finite (1261007895663739 / 2 ^ 52)"
  "round_double (2 ^ 53 + 1) = Finite (2 ^ 53)"
  "round_double (2 ^ 53 + 3) = Finite (2 ^ 53 + 4)"
  "round_double 0 = Finite 0"
  "round_double 25 = Finite 25"
  "round_double (2 ^ 1024 - 2 ^ 970 - 1) = Finite (2 ^ 1024 - 2 ^ 971)"
  "round_double (2 ^ 1024 - 2 ^ 970) = PlusInfinity"
  "round_double (- (2 ^ 1024)) = MinusInfinity"
  "round_double (3 / 2 ^ 1075) = Finite (2 / 2 ^ 1074)"
  "round_double (1 / 2 ^ 1075) = Finite 0"
  by (simp_all add: double_defs)

lemma cutoff_count_values:
  "Math_ceil (double_times 25 (double_divide 28 100)) = Finite 8"
  "Math_ceil (double_times 100 (double_divide 7 100)) = Finite 8"
  "Math_ceil (double_times 75 (double_divide 68 100)) = Finite 52"
  "Math_ceil (double_times 3 (double_divide 20 100)) = Finite 1"
  "Math_ceil (double_times 10 (double_divide 20 100)) = Finite 2"
  "Math_ceil (double_times 4 (double_divide (- 30) 100)) = Finite (- 1)"
  by (simp_all add: double_defs)




text \<open>The count is the one the program computes. For 25 ranked records and a cutoff of
  28 percent the quotient \<^verbatim>\<open>28 / 100\<close> rounds up to the double above 0.28 and the product
  to the double above 7, so 8 records are cut where the exact ceiling is 7.\<close>

lemma cutoff_count_rounds_up:
  "channelsToCut ex_round_brief ''R'' (initialData (calculate ex_round_rows ex_round_brief)) = Finite 8
   \<and> \<lceil>25 * (28 / 100) :: real\<rceil> = 7
   \<and> map channel (filter (\<lambda>d. \<not> selected d)
        (initial_selection (initialData (calculate ex_round_rows ex_round_brief)) ex_round_brief TCPP))
       = [''C18'', ''C19'', ''C20'', ''C21'', ''C22'', ''C23'', ''C24'', ''C25'']"
  unfolding ex_round_rows_def
  by (simp add: calculate_initialData ex_row_def ex_round_brief_def ex_record_def model_defs
        double_defs)


subsection \<open>Copies and the base snapshot\<close>

lemma write_all_frame: "p \<notin> set ps \<Longrightarrow> write_all ps ds m p = m p"
  by (induction ps ds m rule: write_all.induct) simp_all

lemma write_all_read:
  "distinct ps \<Longrightarrow> length ds = length ps \<Longrightarrow> map (write_all ps ds m) ps = map Some ds"
proof (induction ps ds m rule: write_all.induct)
  case (1 p ps d ds m)
  from "1.prems" have d: "distinct ps" "length ds = length ps" "p \<notin> set ps" by simp_all
  have ih: "map (write_all ps ds (m(p \<mapsto> d))) ps = map Some ds"
    by (rule "1.IH" [OF d(1,2)])
  have "write_all ps ds (m(p \<mapsto> d)) p = Some d"
    using d(3) by (simp add: write_all_frame)
  with ih show ?case by simp
qed simp_all

lemma map_filter_Some: "map f ps = map Some ds \<Longrightarrow> List.map_filter f ps = ds"
proof (induction ps arbitrary: ds)
  case Nil
  then show ?case by (simp add: map_filter_simps)
next
  case (Cons p ps)
  then obtain d ds' where "ds = d # ds'" "f p = Some d" "map f ps = map Some ds'" by (cases ds) auto
  with Cons.IH show ?case by (simp add: map_filter_simps)
qed

lemma owned_present: "owned s a \<Longrightarrow> map (objects s) (array_of s a) = map Some (contents s a)"
proof -
  assume "owned s a"
  then have all: "\<forall>p\<in>set (array_of s a). objects s p \<noteq> None"
    by (simp add: owned_def list_all_iff)
  have "(\<forall>p\<in>set ps. f p \<noteq> None) \<Longrightarrow> map f ps = map Some (List.map_filter f ps)" for f :: "nat \<rightharpoonup> ChannelData" and ps
    by (induction ps) (auto simp: map_filter_simps)
  with all show ?thesis by (simp add: contents_def)
qed

lemma length_contents_owned: "owned s a \<Longrightarrow> length (contents s a) = length (array_of s a)"
  using owned_present [of s a] by (metis length_map)


lemma same_below_refl: "same_below n s s"
  by (simp add: same_below_def)

lemma same_below_trans: "same_below n s s1 \<Longrightarrow> same_below n s1 s2 \<Longrightarrow> same_below n s s2"
  by (simp add: same_below_def)

lemma same_below_mono: "m \<le> n \<Longrightarrow> same_below n s s' \<Longrightarrow> same_below m s s'"
  by (simp add: same_below_def)

lemma same_below_allocated:
  assumes "same_below (next_ref s) s s'" "allocated s b"
  shows "array_of s' b = array_of s b" "contents s' b = contents s b"
proof -
  from assms have arr: "arrays s' b = arrays s b"
    and obj: "\<forall>p\<in>set (array_of s b). objects s' p = objects s p"
    by (auto simp: same_below_def allocated_def list_all_iff)
  from arr show a: "array_of s' b = array_of s b" by (simp add: array_of_def)
  have "(\<forall>p\<in>set ps. f p = g p) \<Longrightarrow> List.map_filter f ps = List.map_filter g ps"
    for f g :: "nat \<rightharpoonup> ChannelData" and ps
    by (induction ps) (simp_all add: map_filter_simps split: option.splits)
  with obj show "contents s' b = contents s b" by (simp add: contents_def a)
qed

text \<open>Assigning to the records of an array.\<close>

lemma mutate_simps [simp]:
  "arrays (mutate f a s) = arrays s" "next_ref (mutate f a s) = next_ref s"
  "array_of (mutate f a s) b = array_of s b"
  by (simp_all add: mutate_def array_of_def)

lemma mutate_frame: "p \<notin> set (array_of s a) \<Longrightarrow> objects (mutate f a s) p = objects s p"
  by (simp add: mutate_def write_all_frame)

lemma map_Some_present: "map f ps = map Some ds \<Longrightarrow> p \<in> set ps \<Longrightarrow> f p \<noteq> None"
  by (induction ps arbitrary: ds) auto

lemma mutate_owned:
  assumes "owned s a" "length (f (contents s a)) = length (contents s a)"
  shows "contents (mutate f a s) a = f (contents s a)" "owned (mutate f a s) a"
proof -
  from assms have len: "length (f (contents s a)) = length (array_of s a)"
    by (simp add: length_contents_owned)
  from assms(1) have dist: "distinct (array_of s a)" by (simp add: owned_def)
  have rd: "map (objects (mutate f a s)) (array_of s a) = map Some (f (contents s a))"
    unfolding mutate_def by (simp add: write_all_read [OF dist len])
  then show "contents (mutate f a s) a = f (contents s a)"
    by (simp add: contents_def map_filter_Some)
  have "\<forall>p\<in>set (array_of s a). objects (mutate f a s) p \<noteq> None"
  proof
    fix p assume "p \<in> set (array_of s a)"
    then show "objects (mutate f a s) p \<noteq> None" by (rule map_Some_present [OF rd])
  qed
  with assms(1) show "owned (mutate f a s) a"
    by (simp add: owned_def list_all_iff)
qed

lemma mutate_same_below:
  "fresh_from n s c \<Longrightarrow> same_below n s (mutate f c s)"
  by (auto simp: same_below_def fresh_from_def list_all_iff intro!: mutate_frame)

lemma mutate_fresh: "fresh_from n s c \<Longrightarrow> fresh_from n (mutate f c s) c"
  by (simp add: fresh_from_def)

text \<open>Sorting an array in place.\<close>

lemma sort_in_place_simps [simp]:
  "objects (sort_in_place a s) = objects s" "next_ref (sort_in_place a s) = next_ref s"
  by (simp_all add: sort_in_place_def split: option.splits)

lemma sort_in_place_other: "b \<noteq> a \<Longrightarrow> arrays (sort_in_place a s) b = arrays s b"
  by (simp add: sort_in_place_def split: option.splits)

lemma sort_in_place_array:
  "array_of (sort_in_place a s) a = sort_key (rank_at s) (array_of s a)"
  by (simp add: sort_in_place_def array_of_def split: option.splits)

lemma sort_key_cong_set: "(\<And>x. x \<in> set xs \<Longrightarrow> f x = g x) \<Longrightarrow> sort_key f xs = sort_key g xs"
proof (induction xs)
  case Nil
  then show ?case by simp
next
  case (Cons x xs)
  have "insort_key f x ys = insort_key g x ys" if "\<forall>y\<in>set (x # ys). f y = g y" for ys
    using that by (induction ys) simp_all
  with Cons show ?case by simp
qed

lemma sort_in_place_owned:
  assumes "owned s a"
  shows "contents (sort_in_place a s) a = sort_records (contents s a)" "owned (sort_in_place a s) a"
proof -
  let ?ps = "array_of s a"
  from assms have pres: "\<forall>p\<in>set ?ps. objects s p \<noteq> None" and dist: "distinct ?ps"
    and some: "arrays s a \<noteq> None"
    by (simp_all add: owned_def list_all_iff)
  have rank: "rank_at s p = rank (the (objects s p))" if "p \<in> set ?ps" for p
    using that pres by (auto simp: rank_at_def)
  have the_map: "map (objects s) ps = map Some (map (\<lambda>p. the (objects s p)) ps)"
    if "\<forall>p\<in>set ps. objects s p \<noteq> None" for ps
    using that by (induction ps) auto
  have c: "contents s a = map (\<lambda>p. the (objects s p)) ?ps"
    unfolding contents_def by (rule map_filter_Some) (rule the_map [OF pres])
  have "contents (sort_in_place a s) a
      = map (\<lambda>p. the (objects s p)) (sort_key (rank_at s) ?ps)"
    unfolding contents_def sort_in_place_array sort_in_place_simps
    by (rule map_filter_Some) (rule the_map, simp add: pres)
  also have "sort_key (rank_at s) ?ps = sort_key (\<lambda>p. rank (the (objects s p))) ?ps"
    by (rule sort_key_cong_set) (rule rank)
  also have "map (\<lambda>p. the (objects s p)) (sort_key (\<lambda>p. rank (the (objects s p))) ?ps)
      = sort_key rank (map (\<lambda>p. the (objects s p)) ?ps)"
    by (rule sort_key_map [symmetric])
  finally show "contents (sort_in_place a s) a = sort_records (contents s a)"
    by (simp add: c sort_records_def rank_def)
  from some dist pres show "owned (sort_in_place a s) a"
    by (auto simp: owned_def list_all_iff sort_in_place_array)
       (simp add: sort_in_place_def split: option.splits)
qed

lemma sort_in_place_same_below: "n \<le> c \<Longrightarrow> same_below n s (sort_in_place c s)"
  by (simp add: same_below_def sort_in_place_other)

lemma sort_in_place_fresh: "fresh_from n s c \<Longrightarrow> fresh_from n (sort_in_place c s) c"
  by (simp add: fresh_from_def sort_in_place_array list_all_iff)


text \<open>A deep copy is a new array of new records with the contents of the old one.\<close>

lemma deep_copy_facts:
  assumes "deep_copy a s = (s1, c)"
  shows "c = next_ref s + length (contents s a)" "next_ref s1 = c + 1"
    "same_below (next_ref s) s s1" "owned s1 c" "contents s1 c = contents s a"
    "fresh_from (next_ref s) s1 c" "allocated s1 c"
proof -
  let ?ds = "contents s a"
  let ?ps = "[next_ref s ..< next_ref s + length ?ds]"
  from assms have c: "c = next_ref s + length ?ds"
    and s1: "s1 = s\<lparr>objects := write_all ?ps ?ds (objects s), arrays := (arrays s)(c \<mapsto> ?ps),
                 next_ref := c + 1\<rparr>"
    by (auto simp: deep_copy_def Let_def)
  show "c = next_ref s + length ?ds" by (rule c)
  show "next_ref s1 = c + 1" by (simp add: s1)
  have arr: "array_of s1 c = ?ps" by (simp add: s1 array_of_def)
  show "same_below (next_ref s) s s1"
    by (simp add: same_below_def s1 c write_all_frame)
  have rd: "map (objects s1) ?ps = map Some ?ds"
    unfolding s1 by (simp add: write_all_read)
  then show con: "contents s1 c = ?ds"
    by (simp add: contents_def arr map_filter_Some)
  have "\<forall>p\<in>set ?ps. objects s1 p \<noteq> None"
  proof
    fix p assume "p \<in> set ?ps"
    then show "objects s1 p \<noteq> None" by (rule map_Some_present [OF rd])
  qed
  then show "owned s1 c" by (simp add: owned_def arr list_all_iff) (simp add: s1)
  show "fresh_from (next_ref s) s1 c" by (simp add: fresh_from_def arr list_all_iff) (simp add: c)
  show "allocated s1 c" by (simp add: allocated_def arr list_all_iff) (simp add: s1 c)
qed

text \<open>The optimizer and the selections keep every record at its position.\<close>

lemma region_step_length: "length (region_step logic weights r x) = length x"
  by (simp add: region_step_def set_shares_def set_ratings_def Let_def)

lemma pass_data_length: "length (pass_data brief logic applyLimits weights x) = length x"
proof -
  have "length (fold (region_step logic weights) rs y) = length y" for rs y
    by (induction rs arbitrary: y) (simp_all add: region_step_length)
  then show ?thesis by (simp add: pass_data_def shares_pass_def)
qed

lemma loop_result_length: "length (loop_result brief logic applyLimits weights data) = length data"
proof -
  from optimize_loop_passes [of 0 brief logic applyLimits weights data]
  obtain n where "loop_result brief logic applyLimits weights data
      = (pass_data brief logic applyLimits weights ^^ n) data"
    by (auto simp: loop_result_def)
  moreover have "length ((pass_data brief logic applyLimits weights ^^ n) data) = length data" for n
    by (induction n) (simp_all add: pass_data_length)
  ultimately show ?thesis by simp
qed

lemma optimize_records_length:
  "length (optimize_records data brief logic applyLimits weights) = length data"
proof -
  have "length (fold (orbital_step brief) rs y) = length y" for rs y
    by (induction rs arbitrary: y) (simp_all add: orbital_step_length)
  then show ?thesis by (simp add: optimize_records_def orbital_pass_def loop_result_length)
qed

lemma initial_selection_length: "length (initial_selection data brief logic) = length data"
  by (simp add: initial_selection_def cutoff_pass_length)

text \<open>The generators on the store compute what the functions on lists compute, and touch
  only the array they work on.\<close>

lemma allocated_in_place:
  assumes "allocated s c" "next_ref s' = next_ref s" "set (array_of s' c) = set (array_of s c)"
  shows "allocated s' c"
  using assms by (simp add: allocated_def list_all_iff)

lemma optimizeSplit_st_owned:
  assumes "owned s c" "optimizeSplit_st c brief logic applyLimits weights s = (s', res)"
  shows "res = c" "contents s' c = optimizeSplit (contents s c) brief logic applyLimits weights"
    "owned s' c" "next_ref s' = next_ref s" "set (array_of s' c) = set (array_of s c)"
proof -
  let ?f = "\<lambda>ds. optimize_records ds brief logic applyLimits weights"
  let ?s1 = "mutate ?f c s"
  from assms(2) have res: "res = c" and s': "s' = sort_in_place c ?s1"
    by (auto simp: optimizeSplit_st_def)
  show "res = c" by (rule res)
  have m: "contents ?s1 c = ?f (contents s c)" "owned ?s1 c"
    by (rule mutate_owned [OF assms(1)], simp add: optimize_records_length)+
  from sort_in_place_owned [OF m(2)] m(1)
  show "contents s' c = optimizeSplit (contents s c) brief logic applyLimits weights" "owned s' c"
    by (simp_all add: s' optimizeSplit_def)
  show "next_ref s' = next_ref s" by (simp add: s')
  show "set (array_of s' c) = set (array_of s c)" by (simp add: s' sort_in_place_array)
qed

lemma optimizeSplit_st_fresh:
  assumes "fresh_from n s c" "optimizeSplit_st c brief logic applyLimits weights s = (s', res)"
  shows "same_below n s s'"
proof -
  let ?s1 = "mutate (\<lambda>ds. optimize_records ds brief logic applyLimits weights) c s"
  from assms(2) have s': "s' = sort_in_place c ?s1" by (auto simp: optimizeSplit_st_def)
  from assms(1) have "n \<le> c" by (simp add: fresh_from_def)
  from same_below_trans [OF mutate_same_below [OF assms(1)] sort_in_place_same_below [OF this]]
  show ?thesis by (simp add: s')
qed

lemma generateSingleSplit_st_owned:
  assumes "owned s c" "generateSingleSplit_st c brief logic applyLimits s = (s', res)"
  shows "res = c" "contents s' c = generateSingleSplit (contents s c) brief logic applyLimits"
    "owned s' c" "next_ref s' = next_ref s" "set (array_of s' c) = set (array_of s c)"
proof -
  let ?g = "\<lambda>ds. initial_selection ds brief logic"
  let ?s0 = "mutate ?g c s"
  have m: "contents ?s0 c = ?g (contents s c)" "owned ?s0 c"
    by (rule mutate_owned [OF assms(1)], simp add: initial_selection_length)+
  from assms(2) have run: "optimizeSplit_st c brief logic applyLimits None ?s0 = (s', res)"
    by (simp add: generateSingleSplit_st_def)
  from optimizeSplit_st_owned [OF m(2) run] m(1)
  show "res = c" "contents s' c = generateSingleSplit (contents s c) brief logic applyLimits"
    "owned s' c" "next_ref s' = next_ref s" "set (array_of s' c) = set (array_of s c)"
    by (simp_all add: generateSingleSplit_def)
qed

lemma generateSingleSplit_st_fresh:
  assumes "fresh_from n s c" "generateSingleSplit_st c brief logic applyLimits s = (s', res)"
  shows "same_below n s s'"
proof -
  let ?s0 = "mutate (\<lambda>ds. initial_selection ds brief logic) c s"
  from assms(2) have run: "optimizeSplit_st c brief logic applyLimits None ?s0 = (s', res)"
    by (simp add: generateSingleSplit_st_def)
  from same_below_trans [OF mutate_same_below [OF assms(1)]
      optimizeSplit_st_fresh [OF mutate_fresh [OF assms(1)] run]]
  show ?thesis .
qed


lemma generateConstructorSplit_st_copy:
  assumes "generateConstructorSplit_st a brief names logic weights s = (s', res)"
  shows "same_below (next_ref s) s s'"
    "contents s' res = generateConstructorSplit (contents s a) brief names logic weights"
proof -
  obtain s1 c where dc: "deep_copy a s = (s1, c)" by (cases "deep_copy a s")
  note d = deep_copy_facts [OF dc]
  let ?s2 = "mutate (map (constructor_select names)) c s1"
  from assms dc have run: "optimizeSplit_st c brief logic True weights ?s2 = (s', res)"
    by (simp add: generateConstructorSplit_st_def)
  have m: "contents ?s2 c = map (constructor_select names) (contents s1 c)" "owned ?s2 c"
    by (rule mutate_owned [OF d(4)], simp)+
  from optimizeSplit_st_owned [OF m(2) run] m(1) d(5)
  show "contents s' res = generateConstructorSplit (contents s a) brief names logic weights"
    by (simp add: generateConstructorSplit_def)
  from same_below_trans [OF d(3) same_below_trans [OF mutate_same_below [OF d(6)]
      optimizeSplit_st_fresh [OF mutate_fresh [OF d(6)] run]]]
  show "same_below (next_ref s) s s'" .
qed

lemma generateManualSharesSplit_st_copy:
  assumes "generateManualSharesSplit_st a brief shares s = (s', res)"
  shows "same_below (next_ref s) s s'"
    "contents s' res = generateManualSharesSplit (contents s a) brief shares"
proof -
  obtain s1 c where dc: "deep_copy a s = (s1, c)" by (cases "deep_copy a s")
  note d = deep_copy_facts [OF dc]
  let ?f = "map (manual_share (first_region brief) shares)"
  let ?s2 = "mutate ?f c s1"
  from assms dc have res: "res = c" and s': "s' = sort_in_place c ?s2"
    by (auto simp: generateManualSharesSplit_st_def)
  have m: "contents ?s2 c = ?f (contents s1 c)" "owned ?s2 c"
    by (rule mutate_owned [OF d(4)], simp)+
  from sort_in_place_owned [OF m(2)] m(1) d(5)
  show "contents s' res = generateManualSharesSplit (contents s a) brief shares"
    by (simp add: generateManualSharesSplit_def s' res)
  from d(6) have "next_ref s \<le> c" by (simp add: fresh_from_def)
  from same_below_trans [OF d(3) same_below_trans [OF mutate_same_below [OF d(6)]
      sort_in_place_same_below [OF this]]]
  show "same_below (next_ref s) s s'" by (simp add: s')
qed

lemma calculate_splits_st_copies:
  assumes "allocated s a" "calculate_splits_st configs a brief s = (s', vs)"
  shows "same_below (next_ref s) s s' \<and> next_ref s \<le> next_ref s'
    \<and> map fst vs = map config_name configs
    \<and> map (\<lambda>v. contents s' (snd v)) vs
        = map (\<lambda>config. generateSingleSplit (contents s a) brief (config_logic config)
                 (config_applyLimits config)) configs"
  using assms
proof (induction configs arbitrary: s s' vs)
  case Nil
  then show ?case by (simp add: same_below_refl)
next
  case (Cons config configs)
  obtain s1 c where dc: "deep_copy a s = (s1, c)" by (cases "deep_copy a s")
  note d = deep_copy_facts [OF dc]
  obtain s2 res where run: "generateSingleSplit_st c brief (config_logic config)
      (config_applyLimits config) s1 = (s2, res)"
    by (cases "generateSingleSplit_st c brief (config_logic config) (config_applyLimits config) s1")
  note g = generateSingleSplit_st_owned [OF d(4) run]
  obtain s3 rest where rec: "calculate_splits_st configs a brief s2 = (s3, rest)"
    by (cases "calculate_splits_st configs a brief s2")
  from Cons.prems(2) dc run rec have s': "s' = s3" and vs: "vs = (config_name config, res) # rest"
    by simp_all
  have below12: "same_below (next_ref s) s s2"
    by (rule same_below_trans [OF d(3) generateSingleSplit_st_fresh [OF d(6) run]])
  have next2: "next_ref s2 = c + 1" using g(4) d(2) by simp
  have le: "next_ref s \<le> next_ref s2" using next2 d(1) by simp
  from same_below_allocated [OF below12 Cons.prems(1)]
  have a2: "array_of s2 a = array_of s a" "contents s2 a = contents s a" .
  from Cons.prems(1) le a2(1) have alloc2: "allocated s2 a"
    by (auto simp: allocated_def list_all_iff)
  from Cons.IH [OF alloc2 rec]
  have ih: "same_below (next_ref s2) s2 s3" "next_ref s2 \<le> next_ref s3"
    "map fst rest = map config_name configs"
    "map (\<lambda>v. contents s3 (snd v)) rest
        = map (\<lambda>config. generateSingleSplit (contents s a) brief (config_logic config)
                 (config_applyLimits config)) configs"
    by (simp_all add: a2(2))
  have "allocated s2 c"
    by (rule allocated_in_place [OF d(7)]) (simp_all add: g(4,5))
  from same_below_allocated(2) [OF ih(1) this] g(2) d(5) g(1)
  have first: "contents s3 res = generateSingleSplit (contents s a) brief (config_logic config)
      (config_applyLimits config)"
    by simp
  from same_below_trans [OF below12 same_below_mono [OF le ih(1)]] le ih(2,3,4) first
  show ?case by (simp add: s' vs)
qed

text \<open>
  C8, as the code has it. \<^verbatim>\<open>generateConstructorSplit\<close> and \<^verbatim>\<open>generateManualSharesSplit\<close>
  leave every record and every array that existed before the call as it was (so the list
  they are given, and the records of every variant computed before, are the same before
  and after), and the array they return holds the function of the contents of the input.
  The loop of the batch does the same for \<^verbatim>\<open>initialData\<close>: each variant is
  \<^verbatim>\<open>generateSingleSplit\<close> of a deep copy. \<^verbatim>\<open>generateSingleSplit\<close> itself makes no copy: it
  returns the array it was given, whose records now hold the result.
\<close>

theorem variants_work_on_copies:
  "(generateConstructorSplit_st a brief names logic weights s = (s', res) \<longrightarrow>
      same_below (next_ref s) s s'
      \<and> (\<forall>b. allocated s b \<longrightarrow> array_of s' b = array_of s b \<and> contents s' b = contents s b)
      \<and> contents s' res = generateConstructorSplit (contents s a) brief names logic weights)
   \<and> (generateManualSharesSplit_st a brief shares s = (s', res) \<longrightarrow>
      same_below (next_ref s) s s'
      \<and> (\<forall>b. allocated s b \<longrightarrow> array_of s' b = array_of s b \<and> contents s' b = contents s b)
      \<and> contents s' res = generateManualSharesSplit (contents s a) brief shares)
   \<and> (allocated s a \<and> calculate_splits_st splitConfigs a brief s = (s', vs) \<longrightarrow>
      same_below (next_ref s) s s'
      \<and> (\<forall>b. allocated s b \<longrightarrow> array_of s' b = array_of s b \<and> contents s' b = contents s b)
      \<and> map fst vs = map config_name splitConfigs
      \<and> map (\<lambda>v. contents s' (snd v)) vs
          = map (\<lambda>config. generateSingleSplit (contents s a) brief (config_logic config)
                   (config_applyLimits config)) splitConfigs)
   \<and> (owned s a \<and> generateSingleSplit_st a brief logic applyLimits s = (s', res) \<longrightarrow>
      res = a \<and> contents s' a = generateSingleSplit (contents s a) brief logic applyLimits)"
proof (intro conjI impI allI)
  assume run: "generateConstructorSplit_st a brief names logic weights s = (s', res)"
  note c = generateConstructorSplit_st_copy [OF run]
  show "same_below (next_ref s) s s'" by (rule c(1))
  show "contents s' res = generateConstructorSplit (contents s a) brief names logic weights"
    by (rule c(2))
  fix b assume "allocated s b"
  from same_below_allocated [OF c(1) this]
  show "array_of s' b = array_of s b" "contents s' b = contents s b" .
next
  assume run: "generateManualSharesSplit_st a brief shares s = (s', res)"
  note c = generateManualSharesSplit_st_copy [OF run]
  show "same_below (next_ref s) s s'" by (rule c(1))
  show "contents s' res = generateManualSharesSplit (contents s a) brief shares" by (rule c(2))
  fix b assume "allocated s b"
  from same_below_allocated [OF c(1) this]
  show "array_of s' b = array_of s b" "contents s' b = contents s b" .
next
  assume "allocated s a \<and> calculate_splits_st splitConfigs a brief s = (s', vs)"
  then have al: "allocated s a" and run: "calculate_splits_st splitConfigs a brief s = (s', vs)"
    by simp_all
  note c = calculate_splits_st_copies [OF al run]
  from c show below: "same_below (next_ref s) s s'" by simp
  from c show "map fst vs = map config_name splitConfigs" by simp
  from c show "map (\<lambda>v. contents s' (snd v)) vs
          = map (\<lambda>config. generateSingleSplit (contents s a) brief (config_logic config)
                   (config_applyLimits config)) splitConfigs" by simp
  fix b assume "allocated s b"
  from same_below_allocated [OF below this]
  show "array_of s' b = array_of s b" "contents s' b = contents s b" .
next
  assume "owned s a \<and> generateSingleSplit_st a brief logic applyLimits s = (s', res)"
  then have ow: "owned s a" and run: "generateSingleSplit_st a brief logic applyLimits s = (s', res)"
    by simp_all
  from generateSingleSplit_st_owned [OF ow run]
  show "res = a" "contents s' a = generateSingleSplit (contents s a) brief logic applyLimits"
    by simp_all
qed




lemma ex_store_contents:
  "contents ex_store 2 = [ex_record ''A - 0'' 99 200 1, ex_record ''B - 0'' 1 100 (1 / 2)]"
  by (simp add: contents_def array_of_def ex_store_def map_filter_simps)

lemma ex_store_owned: "owned ex_store 2"
  by (simp add: owned_def array_of_def ex_store_def)

lemma ex_store_allocated: "allocated ex_store 2"
  by (simp add: allocated_def array_of_def ex_store_def)

text \<open>Witness for C8: the three generators and the loop of the batch on the store with the
  two orbital records in array 2.\<close>

theorem variants_work_on_copies_witness:
  "allocated ex_store 2 \<and> owned ex_store 2
   \<and> contents (fst (generateConstructorSplit_st 2 ex_brief [''B - 0''] Affinity None ex_store)) 2
       = contents ex_store 2
   \<and> contents (fst (generateManualSharesSplit_st 2 ex_brief ex_shares ex_store)) 2
       = contents ex_store 2
   \<and> contents (fst (calculate_splits_st splitConfigs 2 ex_brief ex_store)) 2 = contents ex_store 2
   \<and> map fst (snd (calculate_splits_st splitConfigs 2 ex_brief ex_store))
       = [''Split (TCPP)'', ''Split (Affinity)'', ''Split (Efficiency)'', ''Split (Natural)'']
   \<and> snd (generateSingleSplit_st 2 ex_brief TCPP True ex_store) = 2
   \<and> contents (fst (generateSingleSplit_st 2 ex_brief TCPP True ex_store)) 2
       = generateSingleSplit (contents ex_store 2) ex_brief TCPP True"
proof -
  note al = ex_store_allocated and ow = ex_store_owned
  have p1: "generateConstructorSplit_st 2 ex_brief [''B - 0''] Affinity None ex_store
      = (fst (generateConstructorSplit_st 2 ex_brief [''B - 0''] Affinity None ex_store),
         snd (generateConstructorSplit_st 2 ex_brief [''B - 0''] Affinity None ex_store))"
    by simp
  have p2: "generateManualSharesSplit_st 2 ex_brief ex_shares ex_store
      = (fst (generateManualSharesSplit_st 2 ex_brief ex_shares ex_store),
         snd (generateManualSharesSplit_st 2 ex_brief ex_shares ex_store))"
    by simp
  have p3: "calculate_splits_st splitConfigs 2 ex_brief ex_store
      = (fst (calculate_splits_st splitConfigs 2 ex_brief ex_store),
         snd (calculate_splits_st splitConfigs 2 ex_brief ex_store))"
    by simp
  have p4: "generateSingleSplit_st 2 ex_brief TCPP True ex_store
      = (fst (generateSingleSplit_st 2 ex_brief TCPP True ex_store),
         snd (generateSingleSplit_st 2 ex_brief TCPP True ex_store))"
    by simp
  from variants_work_on_copies [THEN conjunct1, rule_format, OF p1] al
  have c1: "contents (fst (generateConstructorSplit_st 2 ex_brief [''B - 0''] Affinity None ex_store)) 2
       = contents ex_store 2"
    by blast
  from variants_work_on_copies [THEN conjunct2, THEN conjunct1, rule_format, OF p2] al
  have c2: "contents (fst (generateManualSharesSplit_st 2 ex_brief ex_shares ex_store)) 2
       = contents ex_store 2"
    by blast
  from variants_work_on_copies [THEN conjunct2, THEN conjunct2, THEN conjunct1, rule_format,
      OF conjI [OF al p3]] al
  have c3: "contents (fst (calculate_splits_st splitConfigs 2 ex_brief ex_store)) 2
       = contents ex_store 2"
    and n3: "map fst (snd (calculate_splits_st splitConfigs 2 ex_brief ex_store))
       = map config_name splitConfigs"
    by blast+
  from variants_work_on_copies [THEN conjunct2, THEN conjunct2, THEN conjunct2, rule_format,
      OF conjI [OF ow p4]]
  have c4: "snd (generateSingleSplit_st 2 ex_brief TCPP True ex_store) = 2"
    "contents (fst (generateSingleSplit_st 2 ex_brief TCPP True ex_store)) 2
       = generateSingleSplit (contents ex_store 2) ex_brief TCPP True"
    by simp_all
  from al ow c1 c2 c3 n3 c4 show ?thesis by (simp add: splitConfigs_def)
qed

text \<open>Counterexample to C8 as stated: \<^verbatim>\<open>generateSingleSplit\<close> returns the array it was given,
  and the records of that array are not what they were before the call.\<close>

theorem single_split_overwrites_input_counterexample:
  "map outcome (contents ex_store 2) = [(''A - 0'', False, None, None), (''B - 0'', False, None, None)]
   \<and> snd (generateSingleSplit_st 2 ex_brief TCPP True ex_store) = 2
   \<and> map outcome (contents (fst (generateSingleSplit_st 2 ex_brief TCPP True ex_store)) 2)
       = [(''B - 0'', True, Some (3 / 10), Some 300), (''A - 0'', False, Some 0, Some 0)]"
proof -
  have p: "generateSingleSplit_st 2 ex_brief TCPP True ex_store
      = (fst (generateSingleSplit_st 2 ex_brief TCPP True ex_store),
         snd (generateSingleSplit_st 2 ex_brief TCPP True ex_store))"
    by simp
  note g = generateSingleSplit_st_owned [OF ex_store_owned p]
  have before: "map outcome (contents ex_store 2)
      = [(''A - 0'', False, None, None), (''B - 0'', False, None, None)]"
    unfolding ex_store_contents by (simp add: outcome_def ex_record_def)
  have after: "map outcome (contents (fst (generateSingleSplit_st 2 ex_brief TCPP True ex_store)) 2)
       = [(''B - 0'', True, Some (3 / 10), Some 300), (''A - 0'', False, Some 0, Some 0)]"
    unfolding g(2) ex_store_contents ex_orbital_TCPP [unfolded variant_TCPP ex_orbital_base]
    by (simp add: outcome_def ex_record_def)
  from before g(1) after show ?thesis by simp
qed

subsection \<open>Which variants run with limits\<close>

lemma deselect_low_not_below: "\<not> below_floor brief (deselect_low brief d)"
  by (simp add: deselect_low_def below_floor_def split: option.splits)

lemma pass_data_floor:
  "d \<in> set (pass_data brief logic True weights data) \<Longrightarrow> \<not> below_floor brief d"
  by (auto simp: pass_data_def deselect_low_not_below)

lemma loop_result_floor:
  assumes "d \<in> set (loop_result brief logic True weights data)"
  shows "\<not> below_floor brief d"
proof -
  let ?pd = "pass_data brief logic True weights"
  from optimize_loop_passes [of 0 brief logic True weights data]
  obtain n where n: "1 \<le> n" "loop_result brief logic True weights data = (?pd ^^ n) data"
    by (auto simp: loop_result_def)
  then obtain m where "n = Suc m" by (cases n) simp_all
  with n(2) have "loop_result brief logic True weights data = ?pd ((?pd ^^ m) data)" by simp
  with assms show ?thesis by (simp add: pass_data_floor)
qed

lemma not_below_floor:
  assumes "\<not> below_floor brief d" "regionBrief brief (region d) = Some rb" "selected d"
    "share d = Some s"
  shows "minShare rb \<le> s"
  using assms by (simp add: below_floor_def)

lemma deselect_low_unfold:
  "deselect_low brief d =
     (case regionBrief brief (region d) of
        None \<Rightarrow> d
      | Some rb \<Rightarrow>
          if selected d \<and> (\<exists>s. share d = Some s \<and> s < minShare rb)
          then d\<lparr>selected := False, comment := Some (LowShare (minShare rb * 100))\<rparr>
          else d)"
  by (auto simp: deselect_low_def below_floor_def split: option.splits)

lemma shares_pass_length: "length (shares_pass brief logic weights data) = length data"
  using pass_data_length [of brief logic False weights data] by (simp add: pass_data_def)

lemma ex_floor_base:
  "initialData (calculate ex_floor_rows ex_brief)
     = [ex_record ''X'' 1 50 (1 / 4), ex_record ''Y'' 60 100 (1 / 2), ex_record ''Z'' 39 200 1]"
  by (simp add: calculate_initialData ex_floor_rows_def ex_row_def ex_brief_def ex_record_def
        model_defs)

text \<open>
  C2, as the code has it. The TCPP, Affinity and Efficiency variants of the batch are
  \<^verbatim>\<open>optimizeSplit\<close> with limits enabled on the cutoff selection of the base snapshot; the
  Natural variant is one pass of rating and normalization over the Natural selection,
  finalized and sorted, with no floor and no orbital cap. The cutoff selection selects a
  record of a region of the brief (one with indexed records) exactly when it has a cost
  index and its name is not among the excluded names; the Natural selection selects a
  record exactly when its rating and its price are positive. With limits enabled, every pass
  of the loop ends by deselecting each selected record of a region of the brief whose
  share is below the region's floor, so neither a pass nor the loop leaves a selected
  record of the brief with a share below its floor; the orbital steps follow the loop, and
  in the three variants the selected orbital shares of a region total at most its cap
  (configured, not negative). With limits disabled the loop is a single pass without the
  floor, and no orbital step follows.
\<close>

theorem natural_variant_runs_without_limits:
  "variant (calculate rows brief) ''Split (TCPP)''
       = optimizeSplit (fold (cutoff_step brief) (regions brief) (initialData (calculate rows brief)))
           brief TCPP True None
   \<and> variant (calculate rows brief) ''Split (Affinity)''
       = optimizeSplit (fold (cutoff_step brief) (regions brief) (initialData (calculate rows brief)))
           brief Affinity True None
   \<and> variant (calculate rows brief) ''Split (Efficiency)''
       = optimizeSplit (fold (cutoff_step brief) (regions brief) (initialData (calculate rows brief)))
           brief Efficiency True None
   \<and> variant (calculate rows brief) ''Split (Natural)''
       = sort_records (map finalize (shares_pass brief Natural None
           (map natural_select (initialData (calculate rows brief)))))
   \<and> optimizeSplit data brief logic True weights
       = sort_records (map finalize (fold (orbital_step brief) (regions brief)
            (loop_result brief logic True weights data)))
   \<and> length (pass_data brief logic True weights data) = length data
   \<and> (\<forall>i<length data.
         pass_data brief logic True weights data ! i
           = (let d = shares_pass brief logic weights data ! i in
              case regionBrief brief (region d) of
                None \<Rightarrow> d
              | Some rb \<Rightarrow>
                  if selected d \<and> (\<exists>s. share d = Some s \<and> s < minShare rb)
                  then d\<lparr>selected := False, comment := Some (LowShare (minShare rb * 100))\<rparr>
                  else d))
   \<and> (\<forall>d\<in>set (pass_data brief logic True weights data). \<forall>rb s.
         regionBrief brief (region d) = Some rb \<and> selected d \<and> share d = Some s
           \<longrightarrow> minShare rb \<le> s)
   \<and> (\<forall>d\<in>set (loop_result brief logic True weights data). \<forall>rb s.
         regionBrief brief (region d) = Some rb \<and> selected d \<and> share d = Some s
           \<longrightarrow> minShare rb \<le> s)
   \<and> (\<forall>nm\<in>{''Split (TCPP)'', ''Split (Affinity)'', ''Split (Efficiency)''}. \<forall>r cap.
         r \<in> set (regions brief) \<and> orbital_cap brief r = Some cap \<and> 0 \<le> cap
           \<longrightarrow> totalOrbitalShare r (variant (calculate rows brief) nm) \<le> cap / 100)
   \<and> loop_result brief logic False weights data = shares_pass brief logic weights data
   \<and> optimizeSplit data brief logic False weights
       = sort_records (map finalize (shares_pass brief logic weights data))
   \<and> (\<forall>r\<in>set (regions brief). \<forall>i<length data.
         region (data ! i) = r \<and> filter (has_index_in r) data \<noteq> []
           \<longrightarrow> selected (fold (cutoff_step brief) (regions brief) data ! i)
                 = (indexTcpp (data ! i) \<noteq> None
                    \<and> channel (data ! i) \<notin> set (channelsToExclude brief r data)))
   \<and> (\<forall>i<length data.
         selected (map natural_select data ! i)
           = (positive (tvrTa (data ! i)) \<and> positive (cpp (data ! i))))"
proof (intro conjI ballI allI impI)
  show "variant (calculate rows brief) ''Split (TCPP)''
       = optimizeSplit (fold (cutoff_step brief) (regions brief) (initialData (calculate rows brief)))
           brief TCPP True None"
    by (simp add: variant_TCPP generateSingleSplit_def initial_selection_def)
  show "variant (calculate rows brief) ''Split (Affinity)''
       = optimizeSplit (fold (cutoff_step brief) (regions brief) (initialData (calculate rows brief)))
           brief Affinity True None"
    by (simp add: variant_Affinity generateSingleSplit_def initial_selection_def)
  show "variant (calculate rows brief) ''Split (Efficiency)''
       = optimizeSplit (fold (cutoff_step brief) (regions brief) (initialData (calculate rows brief)))
           brief Efficiency True None"
    by (simp add: variant_Efficiency generateSingleSplit_def initial_selection_def)
  show "variant (calculate rows brief) ''Split (Natural)''
       = sort_records (map finalize (shares_pass brief Natural None
           (map natural_select (initialData (calculate rows brief)))))"
    by (simp add: variant_Natural generateSingleSplit_def initial_selection_def optimizeSplit_def
          optimize_records_def orbital_pass_def loop_result_def optimize_loop_no_limits)
  show "optimizeSplit data brief logic True weights
       = sort_records (map finalize (fold (orbital_step brief) (regions brief)
            (loop_result brief logic True weights data)))"
    by (simp add: optimizeSplit_def optimize_records_def orbital_pass_def)
  show "length (pass_data brief logic True weights data) = length data"
    by (rule pass_data_length)
  show "loop_result brief logic False weights data = shares_pass brief logic weights data"
    by (simp add: loop_result_def optimize_loop_no_limits)
  show "optimizeSplit data brief logic False weights
       = sort_records (map finalize (shares_pass brief logic weights data))"
    by (simp add: optimizeSplit_def optimize_records_def orbital_pass_def loop_result_def
          optimize_loop_no_limits)
next
  fix i assume "i < length data"
  then have "i < length (shares_pass brief logic weights data)" by (simp add: shares_pass_length)
  then have "pass_data brief logic True weights data ! i
      = deselect_low brief (shares_pass brief logic weights data ! i)"
    by (simp add: pass_data_def)
  then show "pass_data brief logic True weights data ! i
           = (let d = shares_pass brief logic weights data ! i in
              case regionBrief brief (region d) of
                None \<Rightarrow> d
              | Some rb \<Rightarrow>
                  if selected d \<and> (\<exists>s. share d = Some s \<and> s < minShare rb)
                  then d\<lparr>selected := False, comment := Some (LowShare (minShare rb * 100))\<rparr>
                  else d)"
    by (simp only: deselect_low_unfold Let_def)
next
  fix d rb s
  assume "d \<in> set (pass_data brief logic True weights data)"
    and "regionBrief brief (region d) = Some rb \<and> selected d \<and> share d = Some s"
  then show "minShare rb \<le> s"
    using not_below_floor [OF pass_data_floor] by blast
next
  fix d rb s
  assume "d \<in> set (loop_result brief logic True weights data)"
    and "regionBrief brief (region d) = Some rb \<and> selected d \<and> share d = Some s"
  then show "minShare rb \<le> s"
    using not_below_floor [OF loop_result_floor] by blast
next
  fix nm r cap
  assume nm: "nm \<in> {''Split (TCPP)'', ''Split (Affinity)'', ''Split (Efficiency)''}"
    and r: "r \<in> set (regions brief) \<and> orbital_cap brief r = Some cap \<and> 0 \<le> cap"
  from nm obtain logic' where
    "variant (calculate rows brief) nm
       = optimizeSplit (initial_selection (initialData (calculate rows brief)) brief logic')
           brief logic' True None"
    using variant_TCPP [of rows brief] variant_Affinity [of rows brief]
      variant_Efficiency [of rows brief] unfolding generateSingleSplit_def by blast
  moreover from r have "totalOrbitalShare r
      (optimizeSplit (initial_selection (initialData (calculate rows brief)) brief logic')
         brief logic' True None) \<le> cap / 100"
    by (intro optimizeSplit_orbital_bound) simp_all
  ultimately show "totalOrbitalShare r (variant (calculate rows brief) nm) \<le> cap / 100"
    by (simp only:)
next
  fix r i
  assume r: "r \<in> set (regions brief)" and i: "i < length data"
    and ri: "region (data ! i) = r \<and> filter (has_index_in r) data \<noteq> []"
  from ri have "fold (cutoff_step brief) (regions brief) data ! i
      = cutoff_record r (channelsToExclude brief r data) (data ! i)"
    by (intro cutoff_pass_nth [OF r i]) simp_all
  with ri show "selected (fold (cutoff_step brief) (regions brief) data ! i)
                 = (indexTcpp (data ! i) \<noteq> None
                    \<and> channel (data ! i) \<notin> set (channelsToExclude brief r data))"
    by (simp add: cutoff_record_def)
next
  fix i assume "i < length data"
  then show "selected (map natural_select data ! i)
           = (positive (tvrTa (data ! i)) \<and> positive (cpp (data ! i)))"
    by (simp add: natural_select_def)
qed

text \<open>Counterexample to C2 as stated: in the Natural variant of the batch on two orbital
  channels with ratings 99 and 1, the second channel ends selected with a share of 1
  percent, below the floor of 2 percent: the minimum-share pass was not applied.\<close>

theorem natural_variant_limits_counterexample:
  "map outcome (variant (calculate ex_orbital_rows ex_brief) ''Split (Natural)'')
     = [(''A - 0'', True, Some (99 / 100), Some 990), (''B - 0'', True, Some (1 / 100), Some 10)]
   \<and> list_ex (below_floor ex_brief) (variant (calculate ex_orbital_rows ex_brief) ''Split (Natural)'')"
  unfolding variant_Natural ex_orbital_base
  by (simp add: ex_brief_def ex_record_def model_defs optimize_loop.simps)

text \<open>Witness for C2. On three channels with ratings 1, 60 and 39, the third being the most
  expensive, the Affinity variant cuts the third by its cost index and drops the first for
  its share of 1/61 under the floor of 2 percent, while the Natural variant keeps all
  three, the first at 1 percent; the cutoff selection excludes the name of the third
  channel and leaves its record unselected. In a pass with limits over three selected
  channels with shares 60, 39 and 1 percent the third is deselected; and the orbital
  shares of the TCPP variant of the two orbital rows stay within the cap of 30 percent.\<close>

theorem natural_variant_runs_without_limits_witness:
  "map outcome (variant (calculate ex_floor_rows ex_brief) ''Split (Affinity)'')
     = [(''Y'', True, Some 1, Some 1000), (''X'', False, Some 0, Some 0),
        (''Z'', False, Some 0, Some 0)]
   \<and> map outcome (variant (calculate ex_floor_rows ex_brief) ''Split (Natural)'')
     = [(''Y'', True, Some (3 / 5), Some 600), (''Z'', True, Some (39 / 100), Some 390),
        (''X'', True, Some (1 / 100), Some 10)]
   \<and> channelsToExclude ex_brief ''R'' (initialData (calculate ex_floor_rows ex_brief)) = [''Z'']
   \<and> selected (fold (cutoff_step ex_brief) (regions ex_brief)
         (initialData (calculate ex_floor_rows ex_brief)) ! 2) = False
   \<and> 2 < length ex_three
   \<and> outcome (shares_pass ex_brief Natural None ex_three ! 2) = (''C'', True, Some (1 / 100), None)
   \<and> pass_data ex_brief Natural True None ex_three ! 2
       = (shares_pass ex_brief Natural None ex_three ! 2)
           \<lparr>selected := False, comment := Some (LowShare 2)\<rparr>
   \<and> ''Split (TCPP)'' \<in> {''Split (TCPP)'', ''Split (Affinity)'', ''Split (Efficiency)''}
   \<and> ''R'' \<in> set (regions ex_brief) \<and> orbital_cap ex_brief ''R'' = Some 30
   \<and> totalOrbitalShare ''R'' (variant (calculate ex_orbital_rows ex_brief) ''Split (TCPP)'')
       \<le> 30 / 100"
proof -
  note floor_inst = natural_variant_runs_without_limits
    [where rows = ex_floor_rows and brief = ex_brief and data = ex_three and logic = Natural
       and weights = None]
  note cap_inst = natural_variant_runs_without_limits
    [where rows = ex_orbital_rows and brief = ex_brief and data = ex_three and logic = Natural
       and weights = None]
  from floor_inst have
    "variant (calculate ex_floor_rows ex_brief) ''Split (Affinity)''
       = optimizeSplit (fold (cutoff_step ex_brief) (regions ex_brief)
           (initialData (calculate ex_floor_rows ex_brief))) ex_brief Affinity True None"
    by (rule conjunct2 [THEN conjunct1])
  then have aff: "map outcome (variant (calculate ex_floor_rows ex_brief) ''Split (Affinity)'')
     = [(''Y'', True, Some 1, Some 1000), (''X'', False, Some 0, Some 0),
        (''Z'', False, Some 0, Some 0)]"
    unfolding ex_floor_base
    by (simp add: ex_brief_def ex_record_def model_defs double_defs optimize_loop.simps)
  from floor_inst have
    "variant (calculate ex_floor_rows ex_brief) ''Split (Natural)''
       = sort_records (map finalize (shares_pass ex_brief Natural None
           (map natural_select (initialData (calculate ex_floor_rows ex_brief)))))"
    by (rule conjunct2 [THEN conjunct2, THEN conjunct2, THEN conjunct1])
  then have nat: "map outcome (variant (calculate ex_floor_rows ex_brief) ''Split (Natural)'')
     = [(''Y'', True, Some (3 / 5), Some 600), (''Z'', True, Some (39 / 100), Some 390),
        (''X'', True, Some (1 / 100), Some 10)]"
    unfolding ex_floor_base
    by (simp add: ex_brief_def ex_record_def model_defs)
  note cut_inst = natural_variant_runs_without_limits
    [where rows = ex_floor_rows and brief = ex_brief
       and data = "initialData (calculate ex_floor_rows ex_brief)" and logic = Affinity
       and weights = None]
  have excl: "channelsToExclude ex_brief ''R'' (initialData (calculate ex_floor_rows ex_brief))
      = [''Z'']"
    unfolding ex_floor_base by (simp add: ex_brief_def ex_record_def model_defs double_defs)
  have third_row: "2 < length (initialData (calculate ex_floor_rows ex_brief))"
    "region (initialData (calculate ex_floor_rows ex_brief) ! 2) = ''R''"
    "filter (has_index_in ''R'') (initialData (calculate ex_floor_rows ex_brief)) \<noteq> []"
    "indexTcpp (initialData (calculate ex_floor_rows ex_brief) ! 2) \<noteq> None"
    "channel (initialData (calculate ex_floor_rows ex_brief) ! 2) = ''Z''"
    unfolding ex_floor_base by (simp_all add: ex_record_def has_index_in_def)
  from cut_inst have "\<forall>r\<in>set (regions ex_brief).
      \<forall>i<length (initialData (calculate ex_floor_rows ex_brief)).
         region (initialData (calculate ex_floor_rows ex_brief) ! i) = r
         \<and> filter (has_index_in r) (initialData (calculate ex_floor_rows ex_brief)) \<noteq> []
           \<longrightarrow> selected (fold (cutoff_step ex_brief) (regions ex_brief)
                   (initialData (calculate ex_floor_rows ex_brief)) ! i)
                 = (indexTcpp (initialData (calculate ex_floor_rows ex_brief) ! i) \<noteq> None
                    \<and> channel (initialData (calculate ex_floor_rows ex_brief) ! i)
                        \<notin> set (channelsToExclude ex_brief ''R''
                                 (initialData (calculate ex_floor_rows ex_brief))))"
    by (simp add: regions_def ex_brief_def)
  with third_row excl
  have cut: "selected (fold (cutoff_step ex_brief) (regions ex_brief)
         (initialData (calculate ex_floor_rows ex_brief)) ! 2) = False"
    by (simp add: regions_def ex_brief_def)
  have len: "2 < length ex_three" by (simp add: ex_three_def)
  have sp: "outcome (shares_pass ex_brief Natural None ex_three ! 2)
      = (''C'', True, Some (1 / 100), None)"
    by (simp add: ex_three_def ex_brief_def ex_record_def model_defs)
  have rb: "regionBrief ex_brief (region (shares_pass ex_brief Natural None ex_three ! 2))
      = Some \<lparr>targetAudience = ''All 18+'', minChannelShare = Some 2,
               maxOrbitalShare = Some 30, expensiveChannelCutoff = Some 20\<rparr>"
    by (simp add: ex_three_def ex_brief_def ex_record_def model_defs)
  from floor_inst have "\<forall>i<length ex_three.
         pass_data ex_brief Natural True None ex_three ! i
           = (let d = shares_pass ex_brief Natural None ex_three ! i in
              case regionBrief ex_brief (region d) of
                None \<Rightarrow> d
              | Some rb \<Rightarrow>
                  if selected d \<and> (\<exists>s. share d = Some s \<and> s < minShare rb)
                  then d\<lparr>selected := False, comment := Some (LowShare (minShare rb * 100))\<rparr>
                  else d)"
    by (rule conjunct2 [THEN conjunct2, THEN conjunct2, THEN conjunct2, THEN conjunct2,
          THEN conjunct2, THEN conjunct1])
  with len have "pass_data ex_brief Natural True None ex_three ! 2
           = (let d = shares_pass ex_brief Natural None ex_three ! 2 in
              case regionBrief ex_brief (region d) of
                None \<Rightarrow> d
              | Some rb \<Rightarrow>
                  if selected d \<and> (\<exists>s. share d = Some s \<and> s < minShare rb)
                  then d\<lparr>selected := False, comment := Some (LowShare (minShare rb * 100))\<rparr>
                  else d)"
    by blast
  moreover
  have ms: "minShare \<lparr>targetAudience = ''All 18+'', minChannelShare = Some 2,
               maxOrbitalShare = Some 30, expensiveChannelCutoff = Some 20\<rparr> = 2 / 100"
    by (simp add: minShare_def)
  from sp have third: "selected (shares_pass ex_brief Natural None ex_three ! 2)"
    "share (shares_pass ex_brief Natural None ex_three ! 2) = Some (1 / 100)"
    by (simp_all add: outcome_def)
  have "selected (shares_pass ex_brief Natural None ex_three ! 2)
      \<and> (\<exists>s. share (shares_pass ex_brief Natural None ex_three ! 2) = Some s \<and> s < 2 / 100)"
    by (intro conjI exI [of _ "1 / 100"]) (simp_all add: third)
  ultimately have low: "pass_data ex_brief Natural True None ex_three ! 2
       = (shares_pass ex_brief Natural None ex_three ! 2)
           \<lparr>selected := False, comment := Some (LowShare 2)\<rparr>"
    by (simp only: Let_def rb option.case ms if_True) simp
  have nm: "''Split (TCPP)'' \<in> {''Split (TCPP)'', ''Split (Affinity)'', ''Split (Efficiency)''}"
    by simp
  have r: "''R'' \<in> set (regions ex_brief)" by (simp add: regions_def ex_brief_def)
  have cap: "orbital_cap ex_brief ''R'' = Some 30"
    by (simp add: orbital_cap_def regionBrief_def ex_brief_def)
  from cap_inst have "\<forall>nm\<in>{''Split (TCPP)'', ''Split (Affinity)'', ''Split (Efficiency)''}. \<forall>r cap.
         r \<in> set (regions ex_brief) \<and> orbital_cap ex_brief r = Some cap \<and> 0 \<le> cap
           \<longrightarrow> totalOrbitalShare r (variant (calculate ex_orbital_rows ex_brief) nm) \<le> cap / 100"
    by (rule conjunct2 [THEN conjunct2, THEN conjunct2, THEN conjunct2, THEN conjunct2,
          THEN conjunct2, THEN conjunct2, THEN conjunct2, THEN conjunct2, THEN conjunct1])
  with nm r cap
  have bound: "totalOrbitalShare ''R'' (variant (calculate ex_orbital_rows ex_brief) ''Split (TCPP)'')
       \<le> 30 / 100"
    by force
  from aff nat excl cut len sp low nm r cap bound show ?thesis by blast
qed

end
